theory Spec2Isabelle
  imports Main "HOL-Library.AList" "HOL-Library.Multiset"
begin

section \<open>Comment threads (CommentList, in src/components/ui/Tabs.tsx)\<close>

subsection \<open>Data model\<close>

text \<open>
  \<^verbatim>\<open>interface DbComment\<close>. The field \<^verbatim>\<open>id\<close> is called \<open>id_c\<close> here, since \<open>id\<close> is
  the identity function of HOL. Numbers that hold database keys are integers. The
  field \<open>created_at\<close> holds the number that \<^verbatim>\<open>new Date(created_at).getTime()\<close> yields
  for the stored timestamp (milliseconds since the epoch); \<^verbatim>\<open>sortByDate\<close> reads the
  field through that conversion only, and the column is a \<^verbatim>\<open>TIMESTAMPTZ\<close>, so a text
  that no date can be read from (\<^verbatim>\<open>NaN\<close>) is not part of the model. Optional and
  nullable fields are options.
\<close>

record Profile =
  username :: "string option"
  avatar_url :: "string option"

record DbComment =
  id_c :: int
  content :: string
  created_at :: int
  user_id :: "string option"
  category_id :: "int option"
  item_id :: "int option"
  parent_comment_id :: "int option"
  profiles :: "Profile option"

text \<open>
  \<^verbatim>\<open>interface Comment extends DbComment { replies: Comment[] }\<close>. The objects are
  mutable and shared: the same object is reachable from \<^verbatim>\<open>commentMap\<close> and from the
  array it was pushed to. So an object lives in a store (the list of all objects
  created by the first pass, in creation order), a reference to it is its position
  there, and \<open>replies\<close> holds references.
\<close>

type_synonym ref = nat

record Comment = DbComment +
  replies :: "ref list"

text \<open>
  What \<^verbatim>\<open>buildCommentThreads\<close> returns: the array \<^verbatim>\<open>rootComments\<close> of references,
  together with the store the references point into.
\<close>

record CommentThreads =
  rootComments :: "ref list"
  objects :: "Comment list"

subsection \<open>buildCommentThreads\<close>

text \<open>
  A \<^verbatim>\<open>number | null\<close> used as a condition: \<^verbatim>\<open>null\<close> and \<^verbatim>\<open>0\<close> are falsy.
\<close>

definition truthy :: "int option \<Rightarrow> bool" where
  "truthy n = (case n of None \<Rightarrow> False | Some k \<Rightarrow> k \<noteq> 0)"

text \<open>
  First pass: \<^verbatim>\<open>commentMap[comment.id] = { ...comment, replies: [] }\<close>. A later
  comment with the same id replaces the entry; the object made earlier stays in the
  store, unreferenced.
\<close>

definition index_comment ::
  "DbComment \<Rightarrow> (int \<times> ref) list \<times> Comment list \<Rightarrow> (int \<times> ref) list \<times> Comment list" where
  "index_comment comment = (\<lambda>(commentMap, objs).
     (AList.update (id_c comment) (length objs) commentMap,
      objs @ [DbComment.extend comment (Comment.fields [])]))"

definition first_pass :: "DbComment list \<Rightarrow> (int \<times> ref) list \<times> Comment list" where
  "first_pass comments = fold index_comment comments ([], [])"

text \<open>
  Second pass:
  \<^verbatim>\<open>if (comment.parent_comment_id && commentMap[comment.parent_comment_id])
       commentMap[comment.parent_comment_id].replies.push(commentMap[comment.id]);
     else rootComments.push(commentMap[comment.id]);\<close>
  \<^verbatim>\<open>commentMap[comment.id]\<close> is always present, the first pass having indexed every
  comment (lemma \<open>first_pass_lookup_dom\<close> below); the model leaves the state as it is in
  the branch that cannot be taken.
\<close>

definition push_reply :: "ref \<Rightarrow> ref \<Rightarrow> Comment list \<Rightarrow> Comment list" where
  "push_reply parent child objs =
     objs[parent := (objs ! parent)\<lparr>replies := replies (objs ! parent) @ [child]\<rparr>]"

definition parent_ref :: "(int \<times> ref) list \<Rightarrow> DbComment \<Rightarrow> ref option" where
  "parent_ref commentMap comment =
     (if truthy (parent_comment_id comment)
      then map_of commentMap (the (parent_comment_id comment)) else None)"

definition link_comment ::
  "(int \<times> ref) list \<Rightarrow> DbComment \<Rightarrow> ref list \<times> Comment list \<Rightarrow> ref list \<times> Comment list" where
  "link_comment commentMap comment = (\<lambda>(roots, objs).
     case map_of commentMap (id_c comment) of
       None \<Rightarrow> (roots, objs)
     | Some self \<Rightarrow>
         (case parent_ref commentMap comment of
            Some parent \<Rightarrow> (roots, push_reply parent self objs)
          | None \<Rightarrow> (roots @ [self], objs)))"

text \<open>
  \<^verbatim>\<open>sortByDate(a, b) = getTime(b.created_at) - getTime(a.created_at)\<close>, and
  \<^verbatim>\<open>Array.prototype.sort\<close> with a comparator: a stable sort, here the insertion sort
  that puts an element before the first one it does not compare greater than.
\<close>

definition sortByDate :: "Comment list \<Rightarrow> ref \<Rightarrow> ref \<Rightarrow> int" where
  "sortByDate objs a b = created_at (objs ! b) - created_at (objs ! a)"

fun insert_by :: "('a \<Rightarrow> 'a \<Rightarrow> int) \<Rightarrow> 'a \<Rightarrow> 'a list \<Rightarrow> 'a list" where
  "insert_by cmp x [] = [x]"
| "insert_by cmp x (y # ys) = (if cmp x y \<le> 0 then x # y # ys else y # insert_by cmp x ys)"

definition array_sort :: "('a \<Rightarrow> 'a \<Rightarrow> int) \<Rightarrow> 'a list \<Rightarrow> 'a list" where
  "array_sort cmp xs = foldr (insert_by cmp) xs []"

text \<open>
  \<^verbatim>\<open>Object.values(commentMap).forEach(comment => comment.replies.sort(sortByDate))\<close>.
\<close>

definition sort_replies :: "ref \<Rightarrow> Comment list \<Rightarrow> Comment list" where
  "sort_replies a objs =
     objs[a := (objs ! a)\<lparr>replies := array_sort (sortByDate objs) (replies (objs ! a))\<rparr>]"

definition buildCommentThreads :: "DbComment list \<Rightarrow> CommentThreads" where
  "buildCommentThreads comments =
     (let (commentMap, objs0) = first_pass comments;
          (roots, objs1) = fold (link_comment commentMap) comments ([], objs0);
          roots' = array_sort (sortByDate objs1) roots;
          objs2 = fold sort_replies (map snd commentMap) objs1
      in \<lparr>rootComments = roots', objects = objs2\<rparr>)"

subsection \<open>Reading the returned forest\<close>

text \<open>
  The comment an object carries: \<^verbatim>\<open>const { replies, ...dbComment } = thread\<close>.
\<close>

definition comment_at :: "CommentThreads \<Rightarrow> ref \<Rightarrow> DbComment" where
  "comment_at t a = DbComment.truncate (objects t ! a)"

text \<open>
  The positions of the forest, by depth: the roots, then the entries of the roots'
  \<open>replies\<close>, and so on. A reference that is reached twice is listed twice, as a
  traversal of the nested arrays (\<^verbatim>\<open>renderComment\<close>, \<^verbatim>\<open>flatten\<close>) would visit it twice.
  \<open>forest_nodes\<close> lists the positions down to the depth given by the number of
  objects.
\<close>

fun forest_level :: "CommentThreads \<Rightarrow> nat \<Rightarrow> ref list" where
  "forest_level t 0 = rootComments t"
| "forest_level t (Suc k) = concat (map (\<lambda>p. replies (objects t ! p)) (forest_level t k))"

definition forest_nodes :: "CommentThreads \<Rightarrow> ref list" where
  "forest_nodes t = concat (map (forest_level t) [0..<Suc (length (objects t))])"

text \<open>
  The forest as a finite tree of records; \<open>None\<close> when the nesting is deeper than the
  number of objects, which only a cyclic store can cause.
\<close>

datatype Thread = Thread DbComment "Thread list"

fun thread_at :: "CommentThreads \<Rightarrow> nat \<Rightarrow> ref \<Rightarrow> Thread option" where
  "thread_at t 0 a = None"
| "thread_at t (Suc n) a =
     map_option (Thread (comment_at t a)) (those (map (thread_at t n) (replies (objects t ! a))))"

definition forest_of :: "CommentThreads \<Rightarrow> Thread list option" where
  "forest_of t = those (map (thread_at t (length (objects t))) (rootComments t))"

text \<open>Newest first: descending \<open>created_at\<close> along a list of references.\<close>

definition newest_first :: "CommentThreads \<Rightarrow> ref list \<Rightarrow> bool" where
  "newest_first t as =
     sorted_wrt (\<lambda>a b. created_at (objects t ! a) \<ge> created_at (objects t ! b)) as"

text \<open>
  Following \<open>parent_comment_id\<close> from a comment, through the comments of the input,
  for at most \<open>n\<close> steps, ends at a comment that has no parent in the input (or a
  falsy parent id). With pairwise distinct ids and \<open>n\<close> the length of the input this
  says that the parent links from the comment lead into no cycle.
\<close>

fun ends_at_root :: "DbComment list \<Rightarrow> nat \<Rightarrow> DbComment \<Rightarrow> bool" where
  "ends_at_root cs 0 c = False"
| "ends_at_root cs (Suc n) c =
     (if truthy (parent_comment_id c)
      then (case find (\<lambda>d. id_c d = the (parent_comment_id c)) cs of
              None \<Rightarrow> True
            | Some d \<Rightarrow> ends_at_root cs n d)
      else True)"

definition parents_acyclic :: "DbComment list \<Rightarrow> bool" where
  "parents_acyclic cs = list_all (ends_at_root cs (length cs)) cs"

subsection \<open>Auxiliary notions for the proofs\<close>

definition new_comment :: "DbComment \<Rightarrow> ref list \<Rightarrow> Comment" where
  "new_comment c rs = DbComment.extend c (Comment.fields rs)"

definition self_ref :: "(int \<times> ref) list \<Rightarrow> DbComment \<Rightarrow> ref" where
  "self_ref m c = the (map_of m (id_c c))"

definition linked :: "(int \<times> ref) list \<Rightarrow> DbComment list \<Rightarrow> Comment list \<Rightarrow> Comment list" where
  "linked m ps objs = map (\<lambda>a. (objs ! a)\<lparr>replies := replies (objs ! a) @
      map (self_ref m) (filter (\<lambda>c. parent_ref m c = Some a) ps)\<rparr>) [0..<length objs]"

definition newest_first_key :: "Comment list \<Rightarrow> ref \<Rightarrow> int" where
  "newest_first_key h a = - created_at (h ! a)"

definition replies_sorted :: "ref list \<Rightarrow> Comment list \<Rightarrow> Comment list" where
  "replies_sorted as h = map (\<lambda>b. if b \<in> set as
       then (h ! b)\<lparr>replies := sort_key (newest_first_key h) (replies (h ! b))\<rparr>
       else h ! b) [0..<length h]"

definition time_key :: "DbComment list \<Rightarrow> ref \<Rightarrow> int" where
  "time_key cs a = - created_at (cs ! a)"

definition roots_of :: "DbComment list \<Rightarrow> ref list" where
  "roots_of cs = map (self_ref (fst (first_pass cs)))
     (filter (\<lambda>c. parent_ref (fst (first_pass cs)) c = None) cs)"

definition children_of :: "DbComment list \<Rightarrow> ref \<Rightarrow> ref list" where
  "children_of cs b = map (self_ref (fst (first_pass cs)))
     (filter (\<lambda>c. parent_ref (fst (first_pass cs)) c = Some b) cs)"

definition par :: "DbComment list \<Rightarrow> ref \<Rightarrow> ref option" where
  "par cs i = parent_ref (fst (first_pass cs)) (cs ! i)"

fun at_depth :: "DbComment list \<Rightarrow> nat \<Rightarrow> ref \<Rightarrow> bool" where
  "at_depth cs 0 i = (par cs i = None)"
| "at_depth cs (Suc k) i = (case par cs i of None \<Rightarrow> False | Some p \<Rightarrow> at_depth cs k p)"

subsection \<open>Example inputs\<close>

definition example_comment :: "int \<Rightarrow> int option \<Rightarrow> int \<Rightarrow> DbComment" where
  "example_comment i p t =
     \<lparr>id_c = i, content = ''hello'', created_at = t, user_id = Some ''u1'',
      category_id = Some 7, item_id = None, parent_comment_id = p, profiles = None\<rparr>"

definition example_thread :: "DbComment list" where
  "example_thread = [example_comment 1 None 10, example_comment 2 (Some 1) 20,
     example_comment 3 None 30, example_comment 4 (Some 2) 40, example_comment 5 (Some 9) 50]"

definition example_replies :: "DbComment list" where
  "example_replies = [example_comment 1 None 10, example_comment 2 None 30,
     example_comment 3 (Some 1) 20, example_comment 4 (Some 1) 40]"

definition comment_with :: "DbComment \<Rightarrow> int \<Rightarrow> int option \<Rightarrow> int \<Rightarrow> DbComment" where
  "comment_with x i p t = x\<lparr>id_c := i, parent_comment_id := p, created_at := t\<rparr>"

section \<open>CommentList: the handlers\<close>

subsection \<open>State, props and calls\<close>

text \<open>
  A handler is a function from the component state (the values of the \<^verbatim>\<open>useState\<close>
  hooks) and the answers of the backend to the state after the handler has run and the
  list of calls it made, in order. The states of the components share the fields
  \<open>isLoading\<close> and \<open>error\<close>; the records below extend a common parent for them.
\<close>

record LoadingState =
  isLoading :: bool

record CommentListState = LoadingState +
  comments :: CommentThreads
  newComment :: string
  isSubmitting :: bool
  isAnonymous :: bool
  replyingToCommentId :: "int option"
  isAdmin :: bool

record CommentListProps =
  categoryId :: "int option"
  itemId :: "int option"

text \<open>The user of \<^verbatim>\<open>useAuth()\<close>; \<open>id_u\<close> is \<^verbatim>\<open>user.id\<close>.\<close>

record User =
  id_u :: string

text \<open>
  The object passed to \<^verbatim>\<open>insert\<close>, a \<^verbatim>\<open>Partial<DbComment>\<close>; a key that is left out
  is \<open>None\<close>.
\<close>

record CommentData =
  new_content :: string
  new_user_id :: "string option"
  new_parent_comment_id :: "int option"
  new_category_id :: "int option"
  new_item_id :: "int option"

text \<open>The answer \<^verbatim>\<open>{ data, error }\<close> of a backend call; \<open>error\<close> is the message.\<close>

record 'a Response =
  res_data :: "'a option"
  res_error :: "string option"

record File =
  name :: string

text \<open>
  The calls a handler makes on what lies outside the component: the methods of the
  event, \<^verbatim>\<open>window.confirm\<close>, the console (with the text of the first argument), the
  queries on the tables and the storage calls (bucket first). \<open>SelectComment\<close> is the
  query of \<^verbatim>\<open>fetchAndAddComment\<close>, \<open>SelectProofs\<close> that of \<^verbatim>\<open>loadProofs\<close>,
  \<open>FetchImages\<close> the \<^verbatim>\<open>fetchImages\<close> of the store, and \<open>ResetFileInput\<close> the reset of
  the file input with the given id, if the document has it.
\<close>

datatype call =
    PreventDefault
  | StopPropagation
  | WindowConfirm
  | ConsoleLog string
  | ConsoleWarn string
  | ConsoleError string
  | InsertComment CommentData
  | SelectComment int
  | StorageUpload string string File
  | StorageGetPublicUrl string string
  | StorageRemove string "string list"
  | InsertProof string "string option"
  | SelectProofs
  | DeleteProofRow int
  | DeleteImageRow int
  | FetchImages string int
  | ResetFileInput string

subsection \<open>Strings\<close>

text \<open>
  A character is a code unit below 256. \<^verbatim>\<open>String.prototype.trim\<close> removes white space
  and line terminators from both ends; below 256 these are the code units 9 to 13, 32
  and 160.
\<close>

definition is_space :: "char \<Rightarrow> bool" where
  "is_space c = (c \<in> {CHR 0x09, CHR 0x0A, CHR 0x0B, CHR 0x0C, CHR 0x0D, CHR 0x20, CHR 0xA0})"

definition trim :: "string \<Rightarrow> string" where
  "trim s = rev (dropWhile is_space (rev (dropWhile is_space s)))"

text \<open>\<^verbatim>\<open>s.split(sep)\<close> for a separator of one character, and \<^verbatim>\<open>parts.join(sep)\<close>.\<close>

fun split_on :: "char \<Rightarrow> string \<Rightarrow> string list" where
  "split_on sep [] = [[]]"
| "split_on sep (c # cs) =
     (if c = sep then [] # split_on sep cs
      else (case split_on sep cs of
              [] \<Rightarrow> [[c]]
            | w # ws \<Rightarrow> (c # w) # ws))"

fun join :: "char \<Rightarrow> string list \<Rightarrow> string" where
  "join sep [] = []"
| "join sep [w] = w"
| "join sep (w # ws) = w @ sep # join sep ws"

text \<open>
  \<^verbatim>\<open>xs.indexOf(x)\<close>, which is -1 when \<open>x\<close> is no entry, and \<^verbatim>\<open>xs.slice(i)\<close> for
  \<open>i \<ge> 0\<close>.
\<close>

fun indexOf :: "'a list \<Rightarrow> 'a \<Rightarrow> int" where
  "indexOf [] x = -1"
| "indexOf (y # ys) x = (if y = x then 0 else (let i = indexOf ys x in if i < 0 then -1 else i + 1))"

definition slice :: "'a list \<Rightarrow> int \<Rightarrow> 'a list" where
  "slice xs i = drop (nat i) xs"

definition startsWith :: "string \<Rightarrow> string \<Rightarrow> bool" where
  "startsWith s p = (take (length p) s = p)"

definition substring :: "string \<Rightarrow> nat \<Rightarrow> string" where
  "substring s n = drop n s"

text \<open>A number in a template literal: its decimal digits.\<close>

fun string_of_nat :: "nat \<Rightarrow> string" where
  "string_of_nat n =
     (if n < 10 then [''0123456789'' ! n]
      else string_of_nat (n div 10) @ [''0123456789'' ! (n mod 10)])"

declare string_of_nat.simps [simp del]

subsection \<open>The change-feed handler\<close>

text \<open>
  The callback given to \<^verbatim>\<open>.on('postgres_changes', { event: 'INSERT', ... }, ...)\<close>:
  two \<^verbatim>\<open>console.log\<close> calls; the call of \<^verbatim>\<open>fetchAndAddComment\<close> is commented out.
  The argument is \<^verbatim>\<open>payload.new\<close>.
\<close>

definition on_comment_insert ::
  "DbComment \<Rightarrow> CommentListState \<Rightarrow> CommentListState \<times> call list" where
  "on_comment_insert newCommentData s =
     (s, [ConsoleLog ''Real-time INSERT received:'',
          ConsoleLog ''[Debug] Real-time insert detected, auto-fetch disabled for now.''])"

subsection \<open>handleSubmitComment\<close>

text \<open>
  \<open>inputs\<close> gives the value of the textarea \<^verbatim>\<open>reply-input-<id>\<close>, if the document has
  that element. \<^verbatim>\<open>commentText\<close> is \<open>None\<close> for \<^verbatim>\<open>undefined\<close>.
\<close>

definition commentText ::
  "int option \<Rightarrow> CommentListState \<Rightarrow> (int \<Rightarrow> string option) \<Rightarrow> string option" where
  "commentText parentId s inputs =
     (if truthy parentId then inputs (the parentId) else Some (newComment s))"

definition blank :: "string option \<Rightarrow> bool" where
  "blank t = (case t of None \<Rightarrow> True | Some x \<Rightarrow> x = [] \<or> trim x = [])"

definition userIdToSend :: "User option \<Rightarrow> int option \<Rightarrow> CommentListState \<Rightarrow> string option" where
  "userIdToSend user parentId s =
     (let postAnonymously = (user = None \<or> (if truthy parentId then False else isAnonymous s))
      in if postAnonymously then None else map_option id_u user)"

definition commentData ::
  "CommentListProps \<Rightarrow> User option \<Rightarrow> int option \<Rightarrow> CommentListState \<Rightarrow> string \<Rightarrow> CommentData" where
  "commentData props user parentId s text =
     \<lparr>new_content = trim text,
      new_user_id = userIdToSend user parentId s,
      new_parent_comment_id = parentId,
      new_category_id = (if truthy (categoryId props) then categoryId props else None),
      new_item_id = (if truthy (itemId props) then itemId props else None)\<rparr>"

definition handleSubmitComment ::
  "CommentListProps \<Rightarrow> User option \<Rightarrow> DbComment Response \<Rightarrow> int option \<Rightarrow>
   CommentListState \<times> (int \<Rightarrow> string option) \<Rightarrow>
   (CommentListState \<times> (int \<Rightarrow> string option)) \<times> call list" where
  "handleSubmitComment props user response parentId = (\<lambda>(s, inputs).
     if blank (commentText parentId s inputs)
     then ((s, inputs), [PreventDefault, StopPropagation])
     else
       (let text = the (commentText parentId s inputs);
            s1 = s\<lparr>isSubmitting := True\<rparr>;
            calls = [PreventDefault, StopPropagation,
                     ConsoleLog ''Submitting comment data:'',
                     InsertComment (commentData props user parentId s text)];
            s2 = s1\<lparr>isSubmitting := False\<rparr>
        in if res_error response = None \<and> res_data response \<noteq> None
           then
             (if truthy parentId
              then ((s2\<lparr>replyingToCommentId := None\<rparr>,
                     (if inputs (the parentId) \<noteq> None then inputs(the parentId \<mapsto> []) else inputs)),
                    calls @ [ConsoleLog ''Comment submission successful:''])
              else ((s2\<lparr>newComment := [], isAnonymous := False\<rparr>, inputs),
                    calls @ [ConsoleLog ''Comment submission successful:'']))
           else if res_error response \<noteq> None
           then ((s2, inputs), calls @ [ConsoleError ''Error submitting comment:''])
           else ((s2, inputs), calls)))"

section \<open>The admin managers: uploading and deleting images\<close>

subsection \<open>State and answers of the backend\<close>

record ManagerState = LoadingState +
  error :: "string option"

text \<open>
  \<^verbatim>\<open>interface Proof\<close> of AdminProofsManager; its \<^verbatim>\<open>id\<close> and \<^verbatim>\<open>created_at\<close> are
  \<open>id_p\<close> and \<open>created_at_p\<close> here.
\<close>

record Proof =
  id_p :: int
  created_at_p :: string
  image_url :: string
  proof_date :: "string option"

record ProofsState = ManagerState +
  proofs :: "Proof list"
  selectedFile :: "File option"
  proofDate :: string
  isUploading :: bool

text \<open>
  \<^verbatim>\<open>interface Image\<close> of AdminImagesManager, with \<open>_i\<close> on the names that the comment
  records have, too.
\<close>

record Image =
  id_i :: int
  url :: string
  item_id_i :: "int option"
  category_id_i :: "int option"
  type_i :: string

record ImagesState = ManagerState +
  images :: "Image list"
  categories :: "(int \<times> string) list"
  selectedCategoryId :: "int option"
  selectedType :: string
  uploading :: bool
  uploadProgress :: nat

text \<open>
  The answers of the backend to the calls of \<^verbatim>\<open>handleUploadProof\<close>: the \<^verbatim>\<open>error\<close> of
  \<^verbatim>\<open>upload\<close>, \<^verbatim>\<open>urlData.publicUrl\<close> (\<open>None\<close> when there is none), the \<^verbatim>\<open>error\<close> of
  \<^verbatim>\<open>insert\<close>, and the \<^verbatim>\<open>error\<close> of the \<^verbatim>\<open>remove\<close> that follows a failed insert.
\<close>

record UploadAnswers =
  uploadError :: "string option"
  publicUrl :: "string option"
  insertError :: "string option"
  rollbackError :: "string option"

text \<open>
  The answers to a deletion: that of \<^verbatim>\<open>window.confirm\<close>, the \<^verbatim>\<open>error\<close> of the storage
  \<^verbatim>\<open>remove\<close> and the \<^verbatim>\<open>error\<close> of the database \<^verbatim>\<open>delete\<close>.
\<close>

record DeleteAnswers =
  confirmed :: bool
  removeError :: "string option"
  deleteError :: "string option"

text \<open>
  \<^verbatim>\<open>new URL(s)\<close> and \<^verbatim>\<open>decodeURIComponent\<close> belong to the platform. The operations
  take them as parameters: a parser that gives the URL object (of which only
  \<^verbatim>\<open>pathname\<close> is read) or the message of the \<^verbatim>\<open>TypeError\<close> it throws, and a decoder
  that gives \<open>None\<close> when \<^verbatim>\<open>decodeURIComponent\<close> throws.
\<close>

record URL =
  pathname :: string

definition PROOF_IMAGE_BUCKET :: string where
  "PROOF_IMAGE_BUCKET = ''proof-images''"

definition pathPrefix :: "string \<Rightarrow> string" where
  "pathPrefix bucketName = ''/storage/v1/object/public/'' @ bucketName @ ''/''"

subsection \<open>handleUploadProof\<close>

text \<open>
  The body of the \<^verbatim>\<open>try\<close>: \<open>Inl\<close> is a \<^verbatim>\<open>throw\<close>, with the message and the calls
  made before it. \<open>now\<close> is \<^verbatim>\<open>Date.now()\<close>. On success \<^verbatim>\<open>loadProofs()\<close> is called
  and not awaited: it runs up to its first \<^verbatim>\<open>await\<close>, the select.
\<close>

definition proofFilePath :: "nat \<Rightarrow> File \<Rightarrow> string" where
  "proofFilePath now file =
     (let fileExt = last (split_on CHR ''.'' (name file))
      in ''proof-'' @ string_of_nat now @ ''.'' @ fileExt)"

definition uploadProofBody ::
  "nat \<Rightarrow> UploadAnswers \<Rightarrow> File \<Rightarrow> ProofsState \<Rightarrow>
   (string \<times> call list) + (ProofsState \<times> call list)" where
  "uploadProofBody now answers file s =
     (let filePath = proofFilePath now file;
          c1 = [StorageUpload PROOF_IMAGE_BUCKET filePath file]
      in case uploadError answers of
           Some m \<Rightarrow> Inl (''Image Upload Error: '' @ m, c1)
         | None \<Rightarrow>
             (let c2 = c1 @ [StorageGetPublicUrl PROOF_IMAGE_BUCKET filePath]
              in if publicUrl answers = None \<or> publicUrl answers = Some []
                 then Inl (''Could not get public URL for uploaded image.'', c2)
                 else
                   (let c3 = c2 @ [InsertProof (the (publicUrl answers))
                                     (if proofDate s = [] then None else Some (proofDate s))]
                    in case insertError answers of
                         Some m \<Rightarrow>
                           Inl (''DB Insert Error: '' @ m,
                                c3 @ [StorageRemove PROOF_IMAGE_BUCKET [filePath]])
                       | None \<Rightarrow>
                           Inr (s\<lparr>selectedFile := None, proofDate := [],
                                  isLoading := True, error := None\<rparr>,
                                c3 @ [ConsoleLog ''Proof uploaded and linked successfully:'',
                                      ResetFileInput ''proofImageUpload'', SelectProofs]))))"

definition handleUploadProof ::
  "nat \<Rightarrow> UploadAnswers \<Rightarrow> ProofsState \<Rightarrow> ProofsState \<times> call list" where
  "handleUploadProof now answers s =
     (case selectedFile s of
        None \<Rightarrow> (s\<lparr>error := Some ''Please select an image file to upload.''\<rparr>, [PreventDefault])
      | Some file \<Rightarrow>
          (let s1 = s\<lparr>isUploading := True, error := None\<rparr>
           in case uploadProofBody now answers file s1 of
                Inl (message, calls) \<Rightarrow>
                  (s1\<lparr>error := Some (''Failed to upload proof: '' @ message),
                      isUploading := False\<rparr>,
                   PreventDefault # calls @ [ConsoleError ''Error during proof upload:''])
              | Inr (s2, calls) \<Rightarrow> (s2\<lparr>isUploading := False\<rparr>, PreventDefault # calls)))"

subsection \<open>deleteImage (AdminImagesManager)\<close>

text \<open>
  \<^verbatim>\<open>loadImages\<close>, which has its own \<^verbatim>\<open>try\<close>: the answer is the list that
  \<^verbatim>\<open>getImagesByCategory\<close> gives after the fetch, or the message of what was thrown.
\<close>

definition loadImages ::
  "string + Image list \<Rightarrow> string \<Rightarrow> int \<Rightarrow> ImagesState \<Rightarrow> ImagesState \<times> call list" where
  "loadImages loaded imageType catId s =
     (let s0 = s\<lparr>isLoading := True, error := None, images := []\<rparr>
      in case loaded of
           Inr imgs \<Rightarrow> (s0\<lparr>images := imgs, isLoading := False\<rparr>,
                        [FetchImages imageType catId])
         | Inl message \<Rightarrow> (s0\<lparr>error := Some message, images := [], isLoading := False\<rparr>,
                           [FetchImages imageType catId]))"

definition deleteImage ::
  "(string \<Rightarrow> string + URL) \<Rightarrow> DeleteAnswers \<Rightarrow> string + Image list \<Rightarrow> Image \<Rightarrow>
   ImagesState \<Rightarrow> ImagesState \<times> call list" where
  "deleteImage parseURL answers loaded img s =
     (if \<not> confirmed answers then (s, [WindowConfirm])
      else
        (let s1 = s\<lparr>isLoading := True, error := None\<rparr>
         in case parseURL (url img) of
              Inl message \<Rightarrow>
                (s1\<lparr>error := Some (''Deletion failed: '' @ message), isLoading := False\<rparr>,
                 [WindowConfirm, ConsoleError ''Deletion error:''])
            | Inr u \<Rightarrow>
                (let bucketName = ''images'';
                     filePath = (if startsWith (pathname u) (pathPrefix bucketName)
                                 then substring (pathname u) (length (pathPrefix bucketName))
                                 else []);
                     c1 = (if startsWith (pathname u) (pathPrefix bucketName) then []
                           else [ConsoleWarn ''Could not determine file path from URL structure:'']);
                     s2 = (if filePath \<noteq> [] \<and> removeError answers \<noteq> None
                           then s1\<lparr>error := Some (''Storage deletion failed: '' @
                                  the (removeError answers) @
                                  ''. Attempting to delete database record.'')\<rparr>
                           else s1);
                     c2 = (if filePath \<noteq> []
                           then StorageRemove bucketName [filePath] #
                                (if removeError answers \<noteq> None
                                 then [ConsoleError ''Storage deletion error:''] else [])
                           else []);
                     c3 = [DeleteImageRow (id_i img)]
                 in case deleteError answers of
                      Some message \<Rightarrow>
                        (s2\<lparr>error := Some (''Deletion failed: '' @ message), isLoading := False\<rparr>,
                         WindowConfirm # c1 @ c2 @ c3 @ [ConsoleError ''Deletion error:''])
                    | None \<Rightarrow>
                        (if truthy (selectedCategoryId s) \<and> selectedType s \<noteq> []
                         then (let (s3, c4) = loadImages loaded (selectedType s)
                                     (the (selectedCategoryId s)) s2
                               in (s3\<lparr>isLoading := False\<rparr>, WindowConfirm # c1 @ c2 @ c3 @ c4))
                         else (s2\<lparr>isLoading := False\<rparr>, WindowConfirm # c1 @ c2 @ c3)))))"

subsection \<open>deleteStoredImage (AdminServicesManager)\<close>

text \<open>
  The helper reads and writes the \<open>error\<close> of the state only, so it is given for any
  state with that field. \<open>removeStored\<close> is the last block, \<^verbatim>\<open>if (filePath) { ... }\<close>.
\<close>

definition removeStored ::
  "string option \<Rightarrow> string \<Rightarrow> string \<Rightarrow> call list \<Rightarrow> 'a ManagerState_scheme \<Rightarrow>
   'a ManagerState_scheme \<times> call list" where
  "removeStored removeErr bucketName filePath calls s =
     (if filePath \<noteq> []
      then (case removeErr of
              Some message \<Rightarrow>
                (s\<lparr>error := Some (''Storage deletion failed: '' @ message @
                                    ''. Proceeding with DB operation.'')\<rparr>,
                 calls @ [StorageRemove bucketName [filePath],
                          ConsoleError ''Storage deletion error:''])
            | None \<Rightarrow>
                (s, calls @ [StorageRemove bucketName [filePath],
                             ConsoleLog ''Successfully deleted old image:'']))
      else (s, calls))"

definition deleteStoredImage ::
  "(string \<Rightarrow> string + URL) \<Rightarrow> (string \<Rightarrow> string option) \<Rightarrow> string option \<Rightarrow>
   string option \<Rightarrow> 'a ManagerState_scheme \<Rightarrow> 'a ManagerState_scheme \<times> call list" where
  "deleteStoredImage parseURL decodeURIComponent removeErr imageUrl s =
     (if imageUrl = None \<or> imageUrl = Some [] then (s, [])
      else
        (let caught = (\<lambda>calls.
               (s\<lparr>error := Some ''Error occurred while trying to delete the old image.''\<rparr>,
                calls @ [ConsoleError ''Error processing image URL for deletion:'']));
             bucketName = ''programminglistbuckets''
         in case parseURL (the imageUrl) of
              Inl message \<Rightarrow> caught []
            | Inr u \<Rightarrow>
                (if startsWith (pathname u) (pathPrefix bucketName)
                 then (case decodeURIComponent
                              (substring (pathname u) (length (pathPrefix bucketName))) of
                         None \<Rightarrow> caught []
                       | Some filePath \<Rightarrow> removeStored removeErr bucketName filePath [] s)
                 else
                   (let c1 = [ConsoleWarn ''Could not determine file path from URL structure:''];
                        pathSegments = split_on CHR ''/'' (pathname u);
                        potentialPath = join CHR ''/''
                          (slice pathSegments (indexOf pathSegments bucketName + 1))
                    in if potentialPath \<noteq> []
                       then (case decodeURIComponent potentialPath of
                               None \<Rightarrow> caught c1
                             | Some filePath \<Rightarrow>
                                 removeStored removeErr bucketName filePath
                                   (c1 @ [ConsoleLog ''Attempting deletion with extracted path:'']) s)
                       else (s, c1 @ [ConsoleError ''Failed to extract file path for deletion.''])))))"

subsection \<open>handleDeleteProof (AdminProofsManager)\<close>

definition handleDeleteProof ::
  "DeleteAnswers \<Rightarrow> Proof \<Rightarrow> ProofsState \<Rightarrow> ProofsState \<times> call list" where
  "handleDeleteProof answers proof s =
     (if \<not> confirmed answers then (s, [WindowConfirm])
      else
        (let s1 = s\<lparr>isLoading := True, error := None\<rparr>;
             urlParts = split_on CHR ''/'' (image_url proof);
             filePath = join CHR ''/''
               (slice urlParts (indexOf urlParts PROOF_IMAGE_BUCKET + 1));
             s2 = (if filePath \<noteq> [] \<and> removeError answers \<noteq> None
                   then s1\<lparr>error := Some (''Warning: Failed to delete image file from storage: '' @
                          the (removeError answers))\<rparr>
                   else s1);
             c1 = (if filePath = []
                   then [ConsoleWarn ''Could not determine file path from URL for deletion:'']
                   else [ConsoleLog ''Attempting to delete from storage:'',
                         StorageRemove PROOF_IMAGE_BUCKET [filePath],
                         (if removeError answers \<noteq> None
                          then ConsoleError ''Error deleting proof from storage (will still attempt DB deletion):''
                          else ConsoleLog ''Successfully deleted from storage:'')]);
             c2 = [DeleteProofRow (id_p proof)]
         in case deleteError answers of
              Some message \<Rightarrow>
                (s2\<lparr>error := Some (''Failed to delete proof: '' @ message), isLoading := False\<rparr>,
                 WindowConfirm # c1 @ c2 @ [ConsoleError ''Error deleting proof:''])
            | None \<Rightarrow>
                (s2\<lparr>proofs := filter (\<lambda>p. id_p p \<noteq> id_p proof) (proofs s2),
                    isLoading := False\<rparr>,
                 WindowConfirm # c1 @ c2 @ [ConsoleLog ''Proof deleted successfully from DB:''])))"

subsection \<open>The storage removals of a run\<close>

fun storage_removes :: "call list \<Rightarrow> (string \<times> string list) list" where
  "storage_removes [] = []"
| "storage_removes (StorageRemove bucketName paths # cs) = (bucketName, paths) # storage_removes cs"
| "storage_removes (c # cs) = storage_removes cs"

subsection \<open>A parser and a decoder for the examples\<close>

text \<open>
  Instances of the two platform functions, for the examples only: a parser for URLs
  of the form \<^verbatim>\<open>https://host/path?query#fragment\<close>, which neither normalises nor
  escapes as the URL class does, and a decoder for the escapes \<^verbatim>\<open>%XY\<close> of the
  characters below 128 (an escape of a byte from 128, which \<^verbatim>\<open>decodeURIComponent\<close> reads
  as part of a UTF-8 sequence, is outside this instance and gives \<open>None\<close>).
\<close>

definition example_parseURL :: "string \<Rightarrow> string + URL" where
  "example_parseURL x =
     (if startsWith x ''https://''
      then (let r = dropWhile (\<lambda>c. c \<noteq> CHR ''/'') (drop 8 x);
                p = takeWhile (\<lambda>c. c \<noteq> CHR ''?'' \<and> c \<noteq> CHR ''#'') r
            in Inr \<lparr>pathname = (if p = [] then ''/'' else p)\<rparr>)
      else Inl ''Invalid URL'')"

definition hex_value :: "char \<Rightarrow> int" where
  "hex_value c =
     (let i = indexOf ''0123456789abcdef'' c
      in if 0 \<le> i then i else indexOf ''0123456789ABCDEF'' c)"

fun example_decode :: "string \<Rightarrow> string option" where
  "example_decode [] = Some []"
| "example_decode (c # cs) =
     (if c = CHR ''%''
      then (case cs of
              h # l # rest \<Rightarrow>
                (if 0 \<le> hex_value h \<and> hex_value h < 8 \<and> 0 \<le> hex_value l
                 then map_option
                        (Cons (Char (odd (hex_value l)) (odd (hex_value l div 2))
                                 (odd (hex_value l div 4)) (odd (hex_value l div 8))
                                 (odd (hex_value h)) (odd (hex_value h div 2))
                                 (odd (hex_value h div 4)) False))
                        (example_decode rest)
                 else None)
            | _ \<Rightarrow> None)
      else map_option (Cons c) (example_decode cs))"

definition example_images_state :: ImagesState where
  "example_images_state =
     \<lparr>isLoading = False, error = None, images = [], categories = [(2, ''Games'')],
      selectedCategoryId = Some 2, selectedType = ''proofs'', uploading = False,
      uploadProgress = 0\<rparr>"

definition example_proofs_state :: ProofsState where
  "example_proofs_state =
     \<lparr>isLoading = False, error = Some ''old'', proofs = [],
      selectedFile = Some \<lparr>name = ''shot.v2.png''\<rparr>, proofDate = ''2025-05-01'',
      isUploading = False\<rparr>"

definition example_upload_answers :: UploadAnswers where
  "example_upload_answers =
     \<lparr>uploadError = None,
      publicUrl = Some ''https://h.supabase.co/storage/v1/object/public/proof-images/proof-1714.png'',
      insertError = Some ''row violates policy'', rollbackError = Some ''not found''\<rparr>"

definition example_delete_answers :: DeleteAnswers where
  "example_delete_answers = \<lparr>confirmed = True, removeError = None, deleteError = None\<rparr>"

definition example_image :: "string \<Rightarrow> Image" where
  "example_image u = \<lparr>id_i = 1, url = u, item_id_i = None, category_id_i = Some 2, type_i = ''proofs''\<rparr>"

definition example_proof :: "string \<Rightarrow> Proof" where
  "example_proof u = \<lparr>id_p = 3, created_at_p = ''2025-05-01T10:00:00Z'', image_url = u, proof_date = None\<rparr>"

subsection \<open>Example state\<close>

fun is_console :: "call \<Rightarrow> bool" where
  "is_console (ConsoleLog m) = True"
| "is_console (ConsoleWarn m) = True"
| "is_console (ConsoleError m) = True"
| "is_console c = False"

definition example_state :: "CommentListState" where
  "example_state =
     \<lparr>isLoading = False, comments = \<lparr>rootComments = [], objects = []\<rparr>, newComment = ''  hi  '',
      isSubmitting = False, isAnonymous = True, replyingToCommentId = Some 4, isAdmin = False\<rparr>"

definition example_props :: "CommentListProps" where
  "example_props = \<lparr>categoryId = Some 3, itemId = None\<rparr>"

definition example_response :: "DbComment Response" where
  "example_response = \<lparr>res_data = Some (example_comment 9 (Some 4) 90), res_error = None\<rparr>"

section \<open>Properties of buildCommentThreads\<close>

lemma first_pass_snoc: "first_pass (cs @ [c]) = index_comment c (first_pass cs)"
  by (simp add: first_pass_def)

lemma first_pass_objs: "snd (first_pass cs) = map (\<lambda>c. DbComment.extend c (Comment.fields [])) cs"
  by (induction cs rule: rev_induct)
     (simp_all add: first_pass_snoc index_comment_def split_beta, simp add: first_pass_def)

lemma first_pass_lookup_Some:
  "map_of (fst (first_pass cs)) k = Some a \<Longrightarrow> a < length cs \<and> id_c (cs ! a) = k"
proof (induction cs arbitrary: a rule: rev_induct)
  case Nil
  then show ?case by (simp add: first_pass_def)
next
  case (snoc c cs)
  have len: "length (snd (first_pass cs)) = length cs"
    by (simp add: first_pass_objs)
  show ?case
  proof (cases "k = id_c c")
    case True
    with snoc.prems len have "a = length cs"
      by (simp add: first_pass_snoc index_comment_def split_beta update_conv)
    with True show ?thesis by simp
  next
    case False
    with snoc.prems have "map_of (fst (first_pass cs)) k = Some a"
      by (simp add: first_pass_snoc index_comment_def split_beta update_conv)
    from snoc.IH[OF this] show ?thesis by (simp add: nth_append)
  qed
qed

lemma first_pass_lookup_dom:
  "(map_of (fst (first_pass cs)) k = None) = (k \<notin> id_c ` set cs)"
  by (induction cs rule: rev_induct)
     (simp_all add: first_pass_snoc index_comment_def split_beta update_conv, simp add: first_pass_def)

lemma first_pass_lookup_distinct:
  assumes "distinct (map id_c cs)" "i < length cs"
  shows "map_of (fst (first_pass cs)) (id_c (cs ! i)) = Some i"
proof -
  have "id_c (cs ! i) \<in> id_c ` set cs" using assms(2) by simp
  then obtain a where a: "map_of (fst (first_pass cs)) (id_c (cs ! i)) = Some a"
    using first_pass_lookup_dom[of cs "id_c (cs ! i)"] by auto
  from first_pass_lookup_Some[OF a] have "a < length cs" "map id_c cs ! a = map id_c cs ! i"
    using assms(2) by simp_all
  with assms have "a = i" using nth_eq_iff_index_eq[of "map id_c cs" a i] by simp
  with a show ?thesis by simp
qed

lemma array_sort_sortByDate:
  "array_sort (sortByDate objs) xs = sort_key (\<lambda>a. - created_at (objs ! a)) xs"
proof -
  have ins: "insert_by (sortByDate objs) x ys = insort_key (\<lambda>a. - created_at (objs ! a)) x ys" for x ys
    by (induction ys) (simp_all add: sortByDate_def)
  show ?thesis
    by (induction xs) (simp_all add: array_sort_def ins)
qed

lemma link_comment_root:
  "map_of m (id_c c) = Some s \<Longrightarrow> parent_ref m c = None \<Longrightarrow>
   link_comment m c (r, h) = (r @ [s], h)"
  by (simp add: link_comment_def)

lemma link_comment_reply:
  "map_of m (id_c c) = Some s \<Longrightarrow> parent_ref m c = Some p \<Longrightarrow>
   link_comment m c (r, h) = (r, push_reply p s h)"
  by (simp add: link_comment_def)

lemma link_fold:
  assumes "\<forall>c\<in>set ps. map_of m (id_c c) \<noteq> None"
  shows "fold (link_comment m) ps (r0, objs) =
         (r0 @ map (self_ref m) (filter (\<lambda>c. parent_ref m c = None) ps), linked m ps objs)"
  using assms
proof (induction ps rule: rev_induct)
  case Nil
  show ?case by (simp add: linked_def map_nth)
next
  case (snoc c ps)
  then obtain s where s: "map_of m (id_c c) = Some s" by auto
  have IH: "fold (link_comment m) ps (r0, objs) =
         (r0 @ map (self_ref m) (filter (\<lambda>c. parent_ref m c = None) ps), linked m ps objs)"
    using snoc by simp
  have step: "fold (link_comment m) (ps @ [c]) (r0, objs) =
      link_comment m c (r0 @ map (self_ref m) (filter (\<lambda>c. parent_ref m c = None) ps), linked m ps objs)"
    by (simp add: IH)
  show ?case
  proof (cases "parent_ref m c")
    case None
    show ?thesis unfolding step link_comment_root[OF s None]
      using None s by (simp add: self_ref_def linked_def)
  next
    case (Some p)
    have "push_reply p s (linked m ps objs) = linked m (ps @ [c]) objs"
      by (rule nth_equalityI) (auto simp: push_reply_def linked_def Some s self_ref_def nth_list_update)
    then show ?thesis unfolding step link_comment_reply[OF s Some]
      using Some by simp
  qed
qed

lemma insort_key_agree:
  "f x = g x \<Longrightarrow> \<forall>y\<in>set ys. f y = g y \<Longrightarrow> insort_key f x ys = insort_key g x ys"
  by (induction ys) simp_all

lemma sort_key_agree:
  "\<forall>x\<in>set xs. f x = g x \<Longrightarrow> sort_key f xs = sort_key g xs"
proof (induction xs)
  case Nil
  show ?case by simp
next
  case (Cons x xs)
  then have "sort_key f xs = sort_key g xs" by simp
  moreover have "insort_key f x (sort_key g xs) = insort_key g x (sort_key g xs)"
    using Cons.prems by (intro insort_key_agree) simp_all
  ultimately show ?case by simp
qed

lemma length_sort_replies [simp]: "length (sort_replies a h) = length h"
  by (simp add: sort_replies_def)

lemma created_at_sort_replies [simp]:
  "created_at (sort_replies a h ! b) = created_at (h ! b)"
  by (cases "a < length h") (simp_all add: sort_replies_def nth_list_update list_update_beyond)

lemma sortByDate_sort_replies [simp]: "sortByDate (sort_replies a h) = sortByDate h"
  by (intro ext) (simp add: sortByDate_def)

lemma newest_first_key_sort_replies [simp]:
  "newest_first_key (sort_replies a h) = newest_first_key h"
  by (intro ext) (simp add: newest_first_key_def)

lemma sort_key_twice: "sort_key f (sort_key f xs) = sort_key f xs"
  by (simp add: sort_key_id_if_sorted)

lemma nth_sort_replies:
  "b < length h \<Longrightarrow> sort_replies a h ! b =
     (if b = a then (h ! a)\<lparr>replies := sort_key (newest_first_key h) (replies (h ! a))\<rparr>
      else h ! b)"
  by (simp add: sort_replies_def nth_list_update array_sort_sortByDate newest_first_key_def[abs_def])

lemma fold_sort_replies: "fold sort_replies as h = replies_sorted as h"
proof (induction as arbitrary: h)
  case Nil
  show ?case by (simp add: replies_sorted_def map_nth)
next
  case (Cons a as)
  have "replies_sorted as (sort_replies a h) = replies_sorted (a # as) h"
    by (rule nth_equalityI)
       (auto simp: replies_sorted_def nth_sort_replies sort_key_twice)
  with Cons show ?case by simp
qed

lemma new_comment_simps [simp]:
  "created_at (new_comment c rs) = created_at c"
  "id_c (new_comment c rs) = id_c c"
  "parent_comment_id (new_comment c rs) = parent_comment_id c"
  "replies (new_comment c rs) = rs"
  "DbComment.truncate (new_comment c rs) = c"
  "(new_comment c rs)\<lparr>replies := rs'\<rparr> = new_comment c rs'"
  by (simp_all add: new_comment_def DbComment.extend_def Comment.fields_def DbComment.truncate_def)

lemma self_ref_in_range:
  "c \<in> set cs \<Longrightarrow> self_ref (fst (first_pass cs)) c < length cs
     \<and> id_c (cs ! self_ref (fst (first_pass cs)) c) = id_c c"
proof -
  assume "c \<in> set cs"
  then have "map_of (fst (first_pass cs)) (id_c c) \<noteq> None"
    by (simp add: first_pass_lookup_dom)
  then obtain a where a: "map_of (fst (first_pass cs)) (id_c c) = Some a" by auto
  from first_pass_lookup_Some[OF a] a show ?thesis by (simp add: self_ref_def)
qed

lemma roots_of_in_range: "a \<in> set (roots_of cs) \<Longrightarrow> a < length cs"
  by (auto simp: roots_of_def self_ref_in_range)

lemma children_of_in_range: "a \<in> set (children_of cs b) \<Longrightarrow> a < length cs"
  by (auto simp: children_of_def self_ref_in_range)

lemma parent_ref_in_range:
  "parent_ref (fst (first_pass cs)) c = Some b \<Longrightarrow> b < length cs"
  by (auto simp: parent_ref_def split: if_splits dest: first_pass_lookup_Some)

lemma children_of_unreferenced:
  "b \<notin> snd ` set (fst (first_pass cs)) \<Longrightarrow> children_of cs b = []"
proof -
  assume b: "b \<notin> snd ` set (fst (first_pass cs))"
  have "parent_ref (fst (first_pass cs)) c \<noteq> Some b" for c
  proof
    assume "parent_ref (fst (first_pass cs)) c = Some b"
    then have "map_of (fst (first_pass cs)) (the (parent_comment_id c)) = Some b"
      by (simp add: parent_ref_def split: if_splits)
    then have "(the (parent_comment_id c), b) \<in> set (fst (first_pass cs))"
      by (rule map_of_SomeD)
    with b show False by force
  qed
  then show ?thesis by (simp add: children_of_def)
qed

lemma buildCommentThreads_unfold:
  "buildCommentThreads cs =
     \<lparr>rootComments = array_sort (sortByDate (linked (fst (first_pass cs)) cs (map (\<lambda>c. new_comment c []) cs)))
          (roots_of cs),
      objects = fold sort_replies (map snd (fst (first_pass cs)))
          (linked (fst (first_pass cs)) cs (map (\<lambda>c. new_comment c []) cs))\<rparr>"
proof -
  have all: "\<forall>c\<in>set cs. map_of (fst (first_pass cs)) (id_c c) \<noteq> None"
    by (simp add: first_pass_lookup_dom)
  have fp: "first_pass cs = (fst (first_pass cs), map (\<lambda>c. new_comment c []) cs)"
    using first_pass_objs[of cs] by (simp add: new_comment_def prod_eq_iff)
  show ?thesis
    unfolding buildCommentThreads_def
    apply (subst fp)
    apply (simp only: Let_def prod.case link_fold[OF all] append_Nil)
    apply (simp add: roots_of_def)
    done
qed

lemma nth_linked:
  "b < length cs \<Longrightarrow>
   linked (fst (first_pass cs)) cs (map (\<lambda>c. new_comment c []) cs) ! b =
     new_comment (cs ! b) (children_of cs b)"
  by (simp add: linked_def children_of_def)

lemma length_linked [simp]: "length (linked m ps h) = length h"
  by (simp add: linked_def)

lemma buildCommentThreads_roots:
  "rootComments (buildCommentThreads cs) = sort_key (time_key cs) (roots_of cs)"
proof -
  have "sort_key (\<lambda>a. - created_at (linked (fst (first_pass cs)) cs (map (\<lambda>c. new_comment c []) cs) ! a)) (roots_of cs)
      = sort_key (time_key cs) (roots_of cs)"
    by (rule sort_key_agree) (auto simp: nth_linked time_key_def dest: roots_of_in_range)
  then show ?thesis
    by (simp add: buildCommentThreads_unfold array_sort_sortByDate)
qed

lemma length_objects [simp]: "length (objects (buildCommentThreads cs)) = length cs"
  by (simp add: buildCommentThreads_unfold fold_sort_replies replies_sorted_def)

lemma buildCommentThreads_object:
  assumes "b < length cs"
  shows "objects (buildCommentThreads cs) ! b =
           new_comment (cs ! b) (sort_key (time_key cs) (children_of cs b))"
proof -
  let ?h = "linked (fst (first_pass cs)) cs (map (\<lambda>c. new_comment c []) cs)"
  have key: "sort_key (newest_first_key ?h) (children_of cs b) = sort_key (time_key cs) (children_of cs b)"
    by (rule sort_key_agree)
       (auto simp: nth_linked time_key_def newest_first_key_def dest: children_of_in_range)
  show ?thesis
  proof (cases "b \<in> snd ` set (fst (first_pass cs))")
    case True
    then show ?thesis using assms key
      by (simp add: buildCommentThreads_unfold fold_sort_replies replies_sorted_def nth_linked)
  next
    case False
    then show ?thesis using assms children_of_unreferenced[OF False]
      by (simp add: buildCommentThreads_unfold fold_sort_replies replies_sorted_def nth_linked)
  qed
qed

lemma map_filter_index:
  assumes "\<And>i. i < length xs \<Longrightarrow> f (xs ! i) = i"
  shows "map f (filter P xs) = filter (\<lambda>i. P (xs ! i)) [0..<length xs]"
proof -
  have "map f (filter P (map ((!) xs) [0..<length xs])) = filter (\<lambda>i. P (xs ! i)) [0..<length xs]"
  proof -
    have "map (f \<circ> (!) xs) (filter (P \<circ> (!) xs) [0..<length xs]) = filter (P \<circ> (!) xs) [0..<length xs]"
      by (rule map_idI) (simp add: assms)
    then show ?thesis by (simp add: filter_map comp_def)
  qed
  then show ?thesis by (simp add: map_nth)
qed

lemma roots_of_distinct:
  "distinct (map id_c cs) \<Longrightarrow> roots_of cs = filter (\<lambda>i. par cs i = None) [0..<length cs]"
  unfolding roots_of_def par_def
  by (rule map_filter_index) (simp add: self_ref_def first_pass_lookup_distinct)

lemma children_of_distinct:
  "distinct (map id_c cs) \<Longrightarrow> children_of cs b = filter (\<lambda>i. par cs i = Some b) [0..<length cs]"
  unfolding children_of_def par_def
  by (rule map_filter_index) (simp add: self_ref_def first_pass_lookup_distinct)

lemma par_in_range: "par cs i = Some p \<Longrightarrow> p < length cs"
  by (auto simp: par_def dest: parent_ref_in_range)

lemma distinct_concat_map:
  assumes "distinct xs" "\<And>x. x \<in> set xs \<Longrightarrow> distinct (f x)"
    "\<And>x y. x \<in> set xs \<Longrightarrow> y \<in> set xs \<Longrightarrow> x \<noteq> y \<Longrightarrow> set (f x) \<inter> set (f y) = {}"
  shows "distinct (concat (map f xs))"
  using assms
proof (induction xs)
  case Nil
  show ?case by simp
next
  case (Cons x xs)
  have "distinct (concat (map f xs))"
    using Cons.prems by (intro Cons.IH) auto
  moreover have "distinct (f x)" using Cons.prems(2) by simp
  moreover have "set (f x) \<inter> set (f y) = {}" if "y \<in> set xs" for y
    using Cons.prems(1) Cons.prems(3)[of x y] that by auto
  ultimately show ?case by auto
qed

lemma forest_level_distinct:
  assumes d: "distinct (map id_c cs)"
  shows "distinct (forest_level (buildCommentThreads cs) k) \<and>
         set (forest_level (buildCommentThreads cs) k) = {i. i < length cs \<and> at_depth cs k i}"
proof (induction k)
  case 0
  show ?case
    by (auto simp: buildCommentThreads_roots roots_of_distinct[OF d])
next
  case (Suc k)
  let ?t = "buildCommentThreads cs"
  let ?f = "\<lambda>p. replies (objects ?t ! p)"
  have lev: "distinct (forest_level ?t k)"
    "set (forest_level ?t k) = {i. i < length cs \<and> at_depth cs k i}"
    using Suc by simp_all
  have kids: "set (?f p) = {i. i < length cs \<and> par cs i = Some p}" "distinct (?f p)"
    if "p \<in> set (forest_level ?t k)" for p
    using that lev(2) by (auto simp: buildCommentThreads_object children_of_distinct[OF d])
  have "distinct (concat (map ?f (forest_level ?t k)))"
    by (rule distinct_concat_map) (use lev(1) kids in auto)
  moreover have "set (concat (map ?f (forest_level ?t k))) = {i. i < length cs \<and> at_depth cs (Suc k) i}"
    using kids(1) lev(2) by (auto split: option.splits dest: par_in_range)
  ultimately show ?case by simp
qed

lemma at_depth_unique: "at_depth cs k i \<Longrightarrow> at_depth cs k' i \<Longrightarrow> k = k'"
proof (induction k arbitrary: k' i)
  case 0
  then show ?case by (cases k') simp_all
next
  case (Suc k)
  then show ?case by (cases k') (auto split: option.splits)
qed

lemma find_parent:
  assumes d: "distinct (map id_c cs)" and t: "truthy (parent_comment_id c)"
  shows "find (\<lambda>d. id_c d = the (parent_comment_id c)) cs =
           map_option ((!) cs) (parent_ref (fst (first_pass cs)) c)"
proof (cases "map_of (fst (first_pass cs)) (the (parent_comment_id c))")
  case None
  then have "the (parent_comment_id c) \<notin> id_c ` set cs"
    by (simp add: first_pass_lookup_dom)
  then have "find (\<lambda>d. id_c d = the (parent_comment_id c)) cs = None"
    unfolding find_None_iff image_iff by metis
  with None t show ?thesis by (simp add: parent_ref_def)
next
  case (Some p)
  from first_pass_lookup_Some[OF Some]
  have p: "p < length cs" "id_c (cs ! p) = the (parent_comment_id c)" by simp_all
  then have "cs ! p \<in> set cs" by simp
  with p have "\<exists>x\<in>set cs. id_c x = the (parent_comment_id c)"
    by blast
  then obtain x where x: "find (\<lambda>d. id_c d = the (parent_comment_id c)) cs = Some x"
    by (cases "find (\<lambda>d. id_c d = the (parent_comment_id c)) cs") (auto simp: find_None_iff)
  then obtain j where j: "j < length cs" "x = cs ! j" "id_c (cs ! j) = the (parent_comment_id c)"
    by (auto simp: find_Some_iff)
  have "j = p"
    using nth_eq_iff_index_eq[of "map id_c cs" j p] d j p by simp
  with x j Some t show ?thesis by (simp add: parent_ref_def)
qed

lemma ends_at_root_depth:
  assumes d: "distinct (map id_c cs)"
  shows "i < length cs \<Longrightarrow> ends_at_root cs f (cs ! i) \<Longrightarrow> \<exists>k<f. at_depth cs k i"
proof (induction f arbitrary: i)
  case 0
  then show ?case by simp
next
  case (Suc f)
  show ?case
  proof (cases "par cs i")
    case None
    then have "at_depth cs 0 i" by simp
    then show ?thesis by blast
  next
    case (Some p)
    then have t: "truthy (parent_comment_id (cs ! i))"
      by (simp add: par_def parent_ref_def split: if_splits)
    have "find (\<lambda>d. id_c d = the (parent_comment_id (cs ! i))) cs = Some (cs ! p)"
      using find_parent[OF d t] Some by (simp add: par_def)
    with Suc.prems(2) t have "ends_at_root cs f (cs ! p)" by simp
    moreover have "p < length cs" using Some by (rule par_in_range)
    ultimately obtain k where "k < f" "at_depth cs k p" using Suc.IH by blast
    then have "Suc k < Suc f" "at_depth cs (Suc k) i" using Some by simp_all
    then show ?thesis by blast
  qed
qed

lemma acyclic_depth:
  assumes d: "distinct (map id_c cs)" and a: "parents_acyclic cs" and i: "i < length cs"
  shows "\<exists>k<length cs. at_depth cs k i"
proof -
  have "ends_at_root cs (length cs) (cs ! i)"
    using a i by (simp add: parents_acyclic_def list_all_length)
  with i show ?thesis by (rule ends_at_root_depth[OF d])
qed

lemma forest_level_set:
  "distinct (map id_c cs) \<Longrightarrow>
   set (forest_level (buildCommentThreads cs) k) = {i. i < length cs \<and> at_depth cs k i}"
  using forest_level_distinct[of cs k] by simp

lemma forest_level_dist:
  "distinct (map id_c cs) \<Longrightarrow> distinct (forest_level (buildCommentThreads cs) k)"
  using forest_level_distinct[of cs k] by simp

lemma forest_level_disjoint:
  assumes d: "distinct (map id_c cs)" and "k \<noteq> k'"
  shows "set (forest_level (buildCommentThreads cs) k) \<inter>
         set (forest_level (buildCommentThreads cs) k') = {}"
proof (rule ccontr)
  assume "\<not> ?thesis"
  then obtain i where "i \<in> set (forest_level (buildCommentThreads cs) k)"
    "i \<in> set (forest_level (buildCommentThreads cs) k')" by blast
  then have "at_depth cs k i" "at_depth cs k' i"
    by (simp_all add: forest_level_set[OF d])
  then have "k = k'" by (rule at_depth_unique)
  with assms(2) show False by simp
qed

lemma forest_nodes_distinct:
  assumes d: "distinct (map id_c cs)"
  shows "distinct (forest_nodes (buildCommentThreads cs))"
  unfolding forest_nodes_def
proof (rule distinct_concat_map)
  show "distinct [0..<Suc (length (objects (buildCommentThreads cs)))]" by simp
next
  fix k
  show "distinct (forest_level (buildCommentThreads cs) k)"
    by (rule forest_level_dist[OF d])
next
  fix k k' :: nat
  assume "k \<noteq> k'"
  then show "set (forest_level (buildCommentThreads cs) k) \<inter>
         set (forest_level (buildCommentThreads cs) k') = {}"
    by (rule forest_level_disjoint[OF d])
qed

lemma forest_nodes_set:
  assumes d: "distinct (map id_c cs)" and a: "parents_acyclic cs"
  shows "set (forest_nodes (buildCommentThreads cs)) = {..<length cs}"
proof (intro set_eqI iffI)
  fix i assume "i \<in> set (forest_nodes (buildCommentThreads cs))"
  then obtain k where "i \<in> set (forest_level (buildCommentThreads cs) k)"
    unfolding forest_nodes_def set_concat set_map by blast
  then show "i \<in> {..<length cs}"
    by (simp add: forest_level_set[OF d])
next
  fix i assume "i \<in> {..<length cs}"
  then have i: "i < length cs" by simp
  from acyclic_depth[OF d a i] obtain k where k: "k < length cs" "at_depth cs k i" by blast
  have "i \<in> set (forest_level (buildCommentThreads cs) k)"
    using k(2) i by (simp add: forest_level_set[OF d])
  moreover have "k \<in> set [0..<Suc (length (objects (buildCommentThreads cs)))]"
    using k(1) by simp
  ultimately show "i \<in> set (forest_nodes (buildCommentThreads cs))"
    unfolding forest_nodes_def set_concat set_map by blast
qed

lemma forest_nodes_mset:
  assumes d: "distinct (map id_c cs)" and a: "parents_acyclic cs"
  shows "mset (forest_nodes (buildCommentThreads cs)) = mset [0..<length cs]"
proof -
  have "set (forest_nodes (buildCommentThreads cs)) = set [0..<length cs]"
    using forest_nodes_set[OF d a] by (simp add: lessThan_atLeast0)
  moreover have "distinct [0..<length cs]" by simp
  ultimately show ?thesis
    using forest_nodes_distinct[OF d]
      set_eq_iff_mset_eq_distinct[of "forest_nodes (buildCommentThreads cs)" "[0..<length cs]"]
    by blast
qed

lemma forest_level_end:
  assumes d: "distinct (map id_c cs)" and a: "parents_acyclic cs" and n: "length cs \<le> n"
  shows "forest_level (buildCommentThreads cs) n = []"
proof (rule ccontr)
  assume "forest_level (buildCommentThreads cs) n \<noteq> []"
  then obtain i where "i \<in> set (forest_level (buildCommentThreads cs) n)"
    by (cases "forest_level (buildCommentThreads cs) n") auto
  then have i: "i < length cs" "at_depth cs n i"
    by (simp_all add: forest_level_set[OF d])
  from acyclic_depth[OF d a i(1)] obtain k where k: "k < length cs" "at_depth cs k i" by blast
  have "k = n" using k(2) i(2) by (rule at_depth_unique)
  with k(1) n show False by simp
qed

lemma comment_at_build:
  "a < length cs \<Longrightarrow> comment_at (buildCommentThreads cs) a = cs ! a"
  by (simp add: comment_at_def buildCommentThreads_object)

lemma forest_comments_mset:
  assumes d: "distinct (map id_c cs)" and a: "parents_acyclic cs"
  shows "mset (map (comment_at (buildCommentThreads cs)) (forest_nodes (buildCommentThreads cs))) = mset cs"
proof -
  have "mset (map (comment_at (buildCommentThreads cs)) (forest_nodes (buildCommentThreads cs)))
      = image_mset (comment_at (buildCommentThreads cs)) (mset [0..<length cs])"
    by (simp add: forest_nodes_mset[OF d a] del: mset_upt)
  also have "\<dots> = mset (map (comment_at (buildCommentThreads cs)) [0..<length cs])"
    by simp
  also have "map (comment_at (buildCommentThreads cs)) [0..<length cs] = map ((!) cs) [0..<length cs]"
    by (rule map_cong) (simp_all add: comment_at_build)
  also have "\<dots> = cs" by (rule map_nth)
  finally show ?thesis .
qed

lemmas build_eval =
  buildCommentThreads_def first_pass_def index_comment_def link_comment_def parent_ref_def
  truthy_def push_reply_def sort_replies_def array_sort_def sortByDate_def
  DbComment.extend_def Comment.fields_def DbComment.truncate_def comment_at_def

lemma sorted_newest:
  assumes "\<forall>a\<in>set as. a < length cs"
  shows "newest_first (buildCommentThreads cs) (sort_key (time_key cs) as)"
proof -
  have "sorted (map (time_key cs) (sort_key (time_key cs) as))"
    by (rule sorted_sort_key)
  then have "sorted_wrt (\<lambda>a b. time_key cs a \<le> time_key cs b) (sort_key (time_key cs) as)"
    by (simp add: sorted_map)
  then show ?thesis
    unfolding newest_first_def
  proof (rule sorted_wrt_mono_rel[rotated])
    fix a b
    assume "a \<in> set (sort_key (time_key cs) as)" "b \<in> set (sort_key (time_key cs) as)"
      "time_key cs a \<le> time_key cs b"
    then show "created_at (objects (buildCommentThreads cs) ! b) \<le> created_at (objects (buildCommentThreads cs) ! a)"
      using assms by (simp add: buildCommentThreads_object time_key_def)
  qed
qed

lemma forest_level_in_range:
  "a \<in> set (forest_level (buildCommentThreads cs) k) \<Longrightarrow> a < length cs"
proof (induction k arbitrary: a)
  case 0
  then show ?case by (auto simp: buildCommentThreads_roots dest: roots_of_in_range)
next
  case (Suc k)
  then obtain p where p: "p \<in> set (forest_level (buildCommentThreads cs) k)"
    "a \<in> set (replies (objects (buildCommentThreads cs) ! p))" by auto
  from Suc.IH[OF p(1)] have "p < length cs" .
  with p(2) show ?case by (auto simp: buildCommentThreads_object dest: children_of_in_range)
qed

lemma example_thread_built:
  "buildCommentThreads example_thread =
     \<lparr>rootComments = [4, 2, 0],
      objects = [new_comment (example_comment 1 None 10) [1],
                 new_comment (example_comment 2 (Some 1) 20) [3],
                 new_comment (example_comment 3 None 30) [],
                 new_comment (example_comment 4 (Some 2) 40) [],
                 new_comment (example_comment 5 (Some 9) 50) []]\<rparr>"
  by (simp add: example_thread_def build_eval example_comment_def new_comment_def)

lemma example_thread_distinct: "distinct (map id_c example_thread)"
  by (simp add: example_thread_def example_comment_def)

lemma example_thread_acyclic: "parents_acyclic example_thread"
  by (simp add: parents_acyclic_def example_thread_def example_comment_def truthy_def)

lemma example_replies_built:
  "buildCommentThreads example_replies =
     \<lparr>rootComments = [1, 0],
      objects = [new_comment (example_comment 1 None 10) [3, 2],
                 new_comment (example_comment 2 None 30) [],
                 new_comment (example_comment 3 (Some 1) 20) [],
                 new_comment (example_comment 4 (Some 1) 40) []]\<rparr>"
  by (simp add: example_replies_def build_eval example_comment_def new_comment_def)

text \<open>
  Claim C1, amended. For an input list whose ids are pairwise distinct and whose parent
  links form no cycle, the comments met at the positions of the returned forest (the
  roots and, transitively, the entries of the \<open>replies\<close> lists) are exactly the input
  comments, each one once; the forest has no position at depth \<open>length cs\<close> or
  deeper, so \<open>forest_nodes\<close> lists all of them.
\<close>

theorem each_comment_once:
  assumes "distinct (map id_c cs)" and "parents_acyclic cs"
  shows "mset (map (comment_at (buildCommentThreads cs))
                (forest_nodes (buildCommentThreads cs))) = mset cs \<and>
         (\<forall>n\<ge>length cs. forest_level (buildCommentThreads cs) n = [])"
  using forest_comments_mset[OF assms] forest_level_end[OF assms] by blast

theorem each_comment_once_witness:
  "distinct (map id_c example_thread) \<and> parents_acyclic example_thread \<and>
   mset (map (comment_at (buildCommentThreads example_thread))
                (forest_nodes (buildCommentThreads example_thread))) = mset example_thread \<and>
   length example_thread = 5 \<and>
   forest_level (buildCommentThreads example_thread) 5 = []"
proof -
  have len: "length example_thread = 5" by (simp add: example_thread_def)
  from each_comment_once[OF example_thread_distinct example_thread_acyclic]
  have "mset (map (comment_at (buildCommentThreads example_thread))
                (forest_nodes (buildCommentThreads example_thread))) = mset example_thread"
    and "forest_level (buildCommentThreads example_thread) 5 = []"
    using len by simp_all
  with example_thread_distinct example_thread_acyclic len show ?thesis by blast
qed

text \<open>
  Claim C1 as stated, for every input list, fails: a comment that names itself as its
  parent is pushed to its own \<open>replies\<close> and never to the roots, so the returned forest
  is empty; and of two comments with the same id the later one is pushed twice and
  the earlier one never.
\<close>

theorem each_comment_once_counterexample:
  "mset (map (comment_at (buildCommentThreads [example_comment 1 (Some 1) 10]))
      (forest_nodes (buildCommentThreads [example_comment 1 (Some 1) 10])))
     \<noteq> mset [example_comment 1 (Some 1) 10] \<and>
   mset (map (comment_at (buildCommentThreads [example_comment 1 None 10, example_comment 1 None 20]))
      (forest_nodes (buildCommentThreads [example_comment 1 None 10, example_comment 1 None 20])))
     \<noteq> mset [example_comment 1 None 10, example_comment 1 None 20]"
  by (simp add: build_eval example_comment_def forest_nodes_def)

lemma first_pass_lookup_last:
  "map_of (fst (first_pass cs)) k = Some a \<Longrightarrow> cs ! a = last (filter (\<lambda>d. id_c d = k) cs)"
proof (induction cs arbitrary: a rule: rev_induct)
  case Nil
  then show ?case by (simp add: first_pass_def)
next
  case (snoc c cs)
  have len: "length (snd (first_pass cs)) = length cs"
    by (simp add: first_pass_objs)
  show ?case
  proof (cases "k = id_c c")
    case True
    with snoc.prems len have "a = length cs"
      by (simp add: first_pass_snoc index_comment_def split_beta update_conv)
    with True show ?thesis by simp
  next
    case False
    with snoc.prems have m: "map_of (fst (first_pass cs)) k = Some a"
      by (simp add: first_pass_snoc index_comment_def split_beta update_conv)
    from first_pass_lookup_Some[OF m] have "a < length cs" by simp
    with snoc.IH[OF m] False show ?thesis by (simp add: nth_append)
  qed
qed

text \<open>
  Claim C2. For every input list, a comment whose \<open>parent_comment_id\<close> is null, or
  is the id of no comment of the list, is pushed to the roots: one of the roots of the
  returned forest is the object that \<^verbatim>\<open>commentMap\<close> holds for the id of the comment. That
  object carries the last comment of the list with this id, which is the comment itself
  whenever no other comment of the list has its id (the id is the primary key of the
  table, and \<^verbatim>\<open>fetchAndAddComment\<close> adds no comment whose id is present).
\<close>

theorem root_when_parent_unresolved:
  assumes "c \<in> set cs"
    and "\<forall>p. parent_comment_id c = Some p \<longrightarrow> p \<notin> id_c ` set cs"
  shows "\<exists>a\<in>set (rootComments (buildCommentThreads cs)).
           a < length (objects (buildCommentThreads cs)) \<and>
           id_c (comment_at (buildCommentThreads cs) a) = id_c c \<and>
           comment_at (buildCommentThreads cs) a = last (filter (\<lambda>d. id_c d = id_c c) cs) \<and>
           ((\<forall>d\<in>set cs. id_c d = id_c c \<longrightarrow> d = c) \<longrightarrow>
              comment_at (buildCommentThreads cs) a = c)"
proof -
  have "map_of (fst (first_pass cs)) (id_c c) \<noteq> None"
    using assms(1) by (simp add: first_pass_lookup_dom)
  then obtain a where a: "map_of (fst (first_pass cs)) (id_c c) = Some a" by auto
  from first_pass_lookup_Some[OF a] have range: "a < length cs" and ida: "id_c (cs ! a) = id_c c"
    by simp_all
  have self: "self_ref (fst (first_pass cs)) c = a"
    using a by (simp add: self_ref_def)
  have "parent_ref (fst (first_pass cs)) c = None"
  proof (cases "parent_comment_id c")
    case None
    then show ?thesis by (simp add: parent_ref_def truthy_def)
  next
    case (Some p)
    with assms(2) have "p \<notin> id_c ` set cs" by simp
    then have "map_of (fst (first_pass cs)) p = None"
      by (simp add: first_pass_lookup_dom)
    with Some show ?thesis by (simp add: parent_ref_def)
  qed
  with assms(1) have "c \<in> set (filter (\<lambda>c. parent_ref (fst (first_pass cs)) c = None) cs)"
    by simp
  then have "self_ref (fst (first_pass cs)) c \<in> set (roots_of cs)"
    unfolding roots_of_def set_map by (rule imageI)
  then have root: "a \<in> set (rootComments (buildCommentThreads cs))"
    by (simp add: self buildCommentThreads_roots)
  have at: "comment_at (buildCommentThreads cs) a = cs ! a"
    using range by (rule comment_at_build)
  have lst: "cs ! a = last (filter (\<lambda>d. id_c d = id_c c) cs)"
    using a by (rule first_pass_lookup_last)
  have own: "cs ! a = c" if "\<forall>d\<in>set cs. id_c d = id_c c \<longrightarrow> d = c"
    using that range ida nth_mem[OF range] by blast
  from root range at ida lst own show ?thesis by auto
qed

theorem root_when_parent_unresolved_witness:
  "example_comment 5 (Some 9) 50 \<in> set example_thread \<and>
   parent_comment_id (example_comment 5 (Some 9) 50) = Some 9 \<and> 9 \<notin> id_c ` set example_thread \<and>
   (\<exists>a\<in>set (rootComments (buildCommentThreads example_thread)).
           a < length (objects (buildCommentThreads example_thread)) \<and>
           comment_at (buildCommentThreads example_thread) a = example_comment 5 (Some 9) 50) \<and>
   example_comment 1 None 10 \<in> set [example_comment 1 None 10, example_comment 1 None 20] \<and>
   parent_comment_id (example_comment 1 None 10) = None \<and>
   (\<exists>a\<in>set (rootComments (buildCommentThreads [example_comment 1 None 10, example_comment 1 None 20])).
           id_c (comment_at (buildCommentThreads [example_comment 1 None 10, example_comment 1 None 20]) a) = 1 \<and>
           comment_at (buildCommentThreads [example_comment 1 None 10, example_comment 1 None 20]) a
             = example_comment 1 None 20)"
proof -
  have h1: "example_comment 5 (Some 9) 50 \<in> set example_thread"
    by (simp add: example_thread_def)
  have h2: "\<forall>p. parent_comment_id (example_comment 5 (Some 9) 50) = Some p \<longrightarrow> p \<notin> id_c ` set example_thread"
    by (simp add: example_thread_def example_comment_def)
  have h3: "parent_comment_id (example_comment 5 (Some 9) 50) = Some 9"
    and h4: "9 \<notin> id_c ` set example_thread"
    by (simp_all add: example_thread_def example_comment_def)
  have own: "\<forall>d\<in>set example_thread. id_c d = id_c (example_comment 5 (Some 9) 50) \<longrightarrow>
      d = example_comment 5 (Some 9) 50"
    by (simp add: example_thread_def example_comment_def)
  from root_when_parent_unresolved[OF h1 h2] own
  have 1: "\<exists>a\<in>set (rootComments (buildCommentThreads example_thread)).
           a < length (objects (buildCommentThreads example_thread)) \<and>
           comment_at (buildCommentThreads example_thread) a = example_comment 5 (Some 9) 50"
    by blast
  let ?dup = "[example_comment 1 None 10, example_comment 1 None 20]"
  have g1: "example_comment 1 None 10 \<in> set ?dup" by simp
  have g2: "\<forall>p. parent_comment_id (example_comment 1 None 10) = Some p \<longrightarrow> p \<notin> id_c ` set ?dup"
    and g3: "parent_comment_id (example_comment 1 None 10) = None"
    by (simp_all add: example_comment_def)
  have l: "last (filter (\<lambda>d. id_c d = id_c (example_comment 1 None 10)) ?dup) = example_comment 1 None 20"
    and i: "id_c (example_comment 1 None 10) = 1"
    by (simp_all add: example_comment_def)
  from root_when_parent_unresolved[OF g1 g2] l i
  have 2: "\<exists>a\<in>set (rootComments (buildCommentThreads ?dup)).
           id_c (comment_at (buildCommentThreads ?dup) a) = 1 \<and>
           comment_at (buildCommentThreads ?dup) a = example_comment 1 None 20"
    by auto
  from h1 h3 h4 1 g1 g3 2 show ?thesis by blast
qed

text \<open>
  Claim C3, amended. In an input list whose ids are pairwise distinct, take a comment
  whose \<open>parent_comment_id\<close> is not zero and is the id of a comment of the list, and
  from which the parent links lead into no cycle. Then the object built for the parent
  is a node of the returned forest, at some depth \<open>k\<close>, and the comment is an entry of
  the \<open>replies\<close> list of that node, hence a node at depth \<open>k + 1\<close>.
\<close>

theorem reply_under_parent:
  assumes "distinct (map id_c cs)" and "c \<in> set cs" and "d \<in> set cs"
    and "parent_comment_id c = Some (id_c d)" and "id_c d \<noteq> 0"
    and "ends_at_root cs (length cs) c"
  shows "\<exists>k p a. p \<in> set (forest_level (buildCommentThreads cs) k) \<and>
           p < length (objects (buildCommentThreads cs)) \<and>
           comment_at (buildCommentThreads cs) p = d \<and>
           a \<in> set (replies (objects (buildCommentThreads cs) ! p)) \<and>
           a \<in> set (forest_level (buildCommentThreads cs) (Suc k)) \<and>
           a < length (objects (buildCommentThreads cs)) \<and>
           comment_at (buildCommentThreads cs) a = c"
proof -
  from assms(2) obtain i where i: "i < length cs" "c = cs ! i"
    by (auto simp: in_set_conv_nth)
  from assms(3) obtain j where j: "j < length cs" "d = cs ! j"
    by (auto simp: in_set_conv_nth)
  have self: "self_ref (fst (first_pass cs)) c = i"
    using first_pass_lookup_distinct[OF assms(1) i(1)] i(2) by (simp add: self_ref_def)
  have "map_of (fst (first_pass cs)) (id_c d) = Some j"
    using first_pass_lookup_distinct[OF assms(1) j(1)] j(2) by simp
  then have pr: "parent_ref (fst (first_pass cs)) c = Some j"
    using assms(4,5) by (simp add: parent_ref_def truthy_def)
  with assms(2) have "c \<in> set (filter (\<lambda>c. parent_ref (fst (first_pass cs)) c = Some j) cs)"
    by simp
  then have "self_ref (fst (first_pass cs)) c \<in> set (children_of cs j)"
    unfolding children_of_def set_map by (rule imageI)
  then have child: "i \<in> set (replies (objects (buildCommentThreads cs) ! j))"
    using j(1) by (simp add: self buildCommentThreads_object)
  have at: "comment_at (buildCommentThreads cs) i = c" "comment_at (buildCommentThreads cs) j = d"
    using i j by (simp_all add: comment_at_build)
  have "ends_at_root cs (length cs) (cs ! i)" using assms(6) i(2) by simp
  from ends_at_root_depth[OF assms(1) i(1) this]
  obtain k where k: "at_depth cs k i" by blast
  have pari: "par cs i = Some j" using pr i(2) by (simp add: par_def)
  from k pari obtain k' where k': "k = Suc k'" "at_depth cs k' j"
    by (cases k) simp_all
  have lj: "j \<in> set (forest_level (buildCommentThreads cs) k')"
    using k'(2) j(1) by (simp add: forest_level_set[OF assms(1)])
  have li: "i \<in> set (forest_level (buildCommentThreads cs) (Suc k'))"
    using k k'(1) i(1) by (simp only: forest_level_set[OF assms(1)]) simp
  from lj li child at i(1) j(1) show ?thesis
    by (intro exI[of _ k'] exI[of _ j] exI[of _ i]) simp
qed

theorem reply_under_parent_witness:
  "distinct (map id_c example_thread) \<and> example_comment 4 (Some 2) 40 \<in> set example_thread \<and>
   example_comment 2 (Some 1) 20 \<in> set example_thread \<and>
   parent_comment_id (example_comment 4 (Some 2) 40) = Some (id_c (example_comment 2 (Some 1) 20)) \<and>
   id_c (example_comment 2 (Some 1) 20) \<noteq> 0 \<and>
   ends_at_root example_thread (length example_thread) (example_comment 4 (Some 2) 40) \<and>
   (\<exists>k p a. p \<in> set (forest_level (buildCommentThreads example_thread) k) \<and>
           p < length (objects (buildCommentThreads example_thread)) \<and>
           comment_at (buildCommentThreads example_thread) p = example_comment 2 (Some 1) 20 \<and>
           a \<in> set (replies (objects (buildCommentThreads example_thread) ! p)) \<and>
           a \<in> set (forest_level (buildCommentThreads example_thread) (Suc k)) \<and>
           a < length (objects (buildCommentThreads example_thread)) \<and>
           comment_at (buildCommentThreads example_thread) a = example_comment 4 (Some 2) 40)"
proof -
  have h2: "example_comment 4 (Some 2) 40 \<in> set example_thread"
    and h3: "example_comment 2 (Some 1) 20 \<in> set example_thread"
    by (simp_all add: example_thread_def)
  have h4: "parent_comment_id (example_comment 4 (Some 2) 40) = Some (id_c (example_comment 2 (Some 1) 20))"
    and h5: "id_c (example_comment 2 (Some 1) 20) \<noteq> 0"
    by (simp_all add: example_comment_def)
  have h6: "ends_at_root example_thread (length example_thread) (example_comment 4 (Some 2) 40)"
    by (simp add: example_thread_def example_comment_def truthy_def)
  from reply_under_parent[OF example_thread_distinct h2 h3 h4 h5 h6]
    example_thread_distinct h2 h3 h4 h5 h6
  show ?thesis by blast
qed

text \<open>
  Claim C3 as stated, for every input list, fails: a parent id of 0 is falsy, so the
  reply to the comment with id 0 becomes a root; comments 1 and 2 that name each other
  as parent are pushed to each other's \<open>replies\<close> and to no root, so the forest
  returned for them and the reply 3 to comment 1 is empty; and of two replies with the
  same id the later one is pushed twice to the parent's \<open>replies\<close> and the earlier one
  never.
\<close>

theorem reply_under_parent_counterexample:
  "parent_comment_id (example_comment 5 (Some 0) 20) = Some (id_c (example_comment 0 None 10)) \<and>
   comment_at (buildCommentThreads [example_comment 0 None 10, example_comment 5 (Some 0) 20]) 0
     = example_comment 0 None 10 \<and>
   replies (objects (buildCommentThreads [example_comment 0 None 10, example_comment 5 (Some 0) 20]) ! 0) = [] \<and>
   rootComments (buildCommentThreads [example_comment 0 None 10, example_comment 5 (Some 0) 20]) = [1, 0] \<and>
   distinct (map id_c [example_comment 1 (Some 2) 10, example_comment 2 (Some 1) 20,
                       example_comment 3 (Some 1) 30]) \<and>
   parent_comment_id (example_comment 3 (Some 1) 30) = Some (id_c (example_comment 1 (Some 2) 10)) \<and>
   rootComments (buildCommentThreads [example_comment 1 (Some 2) 10, example_comment 2 (Some 1) 20,
                       example_comment 3 (Some 1) 30]) = [] \<and>
   forest_nodes (buildCommentThreads [example_comment 1 (Some 2) 10, example_comment 2 (Some 1) 20,
                       example_comment 3 (Some 1) 30]) = [] \<and>
   example_comment 2 (Some 1) 20 \<noteq> example_comment 2 (Some 1) 30 \<and>
   map (comment_at (buildCommentThreads
          [example_comment 1 None 10, example_comment 2 (Some 1) 20, example_comment 2 (Some 1) 30]))
     (replies (objects (buildCommentThreads
          [example_comment 1 None 10, example_comment 2 (Some 1) 20, example_comment 2 (Some 1) 30]) ! 0))
   = [example_comment 2 (Some 1) 30, example_comment 2 (Some 1) 30]"
  by (simp add: build_eval example_comment_def forest_nodes_def)

text \<open>
  Claim C4. In the forest returned by \<open>buildCommentThreads\<close> the list of roots is in
  descending order of \<open>created_at\<close>, and so is the \<open>replies\<close> list of every object
  of the store; every reference met at any depth of the forest points into the store,
  so this covers every node of the forest.
\<close>

theorem threads_sorted_newest_first:
  "newest_first (buildCommentThreads cs) (rootComments (buildCommentThreads cs)) \<and>
   (\<forall>a<length (objects (buildCommentThreads cs)).
      newest_first (buildCommentThreads cs) (replies (objects (buildCommentThreads cs) ! a))) \<and>
   (\<forall>k. \<forall>a\<in>set (forest_level (buildCommentThreads cs) k).
      a < length (objects (buildCommentThreads cs)))"
proof (intro conjI allI impI ballI)
  show "newest_first (buildCommentThreads cs) (rootComments (buildCommentThreads cs))"
    unfolding buildCommentThreads_roots
    by (rule sorted_newest) (auto dest: roots_of_in_range)
next
  fix a assume "a < length (objects (buildCommentThreads cs))"
  then have a: "a < length cs" by simp
  show "newest_first (buildCommentThreads cs) (replies (objects (buildCommentThreads cs) ! a))"
    unfolding buildCommentThreads_object[OF a] new_comment_simps
    by (rule sorted_newest) (auto dest: children_of_in_range)
next
  fix k a assume "a \<in> set (forest_level (buildCommentThreads cs) k)"
  then show "a < length (objects (buildCommentThreads cs))"
    by (simp add: forest_level_in_range)
qed

theorem threads_sorted_newest_first_witness:
  "rootComments (buildCommentThreads example_replies) = [1, 0] \<and>
   newest_first (buildCommentThreads example_replies) [1, 0] \<and>
   replies (objects (buildCommentThreads example_replies) ! 0) = [3, 2] \<and>
   newest_first (buildCommentThreads example_replies) [3, 2] \<and>
   forest_level (buildCommentThreads example_replies) 1 = [3, 2] \<and>
   3 < length (objects (buildCommentThreads example_replies))"
proof -
  let ?t = "buildCommentThreads example_replies"
  have r: "rootComments ?t = [1, 0]" and o: "replies (objects ?t ! 0) = [3, 2]"
    and l: "forest_level ?t 1 = [3, 2]" and n: "0 < length (objects ?t)"
    by (simp_all add: example_replies_built)
  from threads_sorted_newest_first[of example_replies]
  have "newest_first ?t (rootComments ?t)"
    and "newest_first ?t (replies (objects ?t ! 0))"
    and "\<forall>a\<in>set (forest_level ?t 1). a < length (objects ?t)"
    using n by blast+
  with r o l show ?thesis by simp
qed

text \<open>
  Claim C5. On the input \<open>[{1, null, t1}, {2, 1, t2}, {3, null, t3}]\<close> with
  \<open>t1 < t2 < t3\<close> (whatever the other fields are) the forest returned has exactly the
  two roots comment 3 and comment 1, in this order; the \<open>replies\<close> of comment 1 are
  exactly comment 2, and the other \<open>replies\<close> lists are empty.
\<close>

theorem three_comment_example:
  assumes "t1 < t2" and "t2 < t3"
  shows "forest_of (buildCommentThreads
           [comment_with x1 1 None t1, comment_with x2 2 (Some 1) t2, comment_with x3 3 None t3])
         = Some [Thread (comment_with x3 3 None t3) [],
                 Thread (comment_with x1 1 None t1) [Thread (comment_with x2 2 (Some 1) t2) []]]"
  using assms
  by (simp add: build_eval comment_with_def forest_of_def numeral_2_eq_2 numeral_3_eq_3)

theorem three_comment_example_witness:
  "(10::int) < 20 \<and> (20::int) < 30 \<and>
   forest_of (buildCommentThreads
           [comment_with (example_comment 0 None 0) 1 None 10,
            comment_with (example_comment 0 None 0) 2 (Some 1) 20,
            comment_with (example_comment 0 None 0) 3 None 30])
         = Some [Thread (comment_with (example_comment 0 None 0) 3 None 30) [],
                 Thread (comment_with (example_comment 0 None 0) 1 None 10)
                   [Thread (comment_with (example_comment 0 None 0) 2 (Some 1) 20) []]]"
  using three_comment_example[of 10 20 30 "example_comment 0 None 0" "example_comment 0 None 0" "example_comment 0 None 0"]
  by simp

section \<open>Properties of the CommentList handlers\<close>

text \<open>
  Claim C8. The handler of the INSERT notifications of the change feed leaves the state
  of CommentList as it is, for every payload, and makes no call but \<^verbatim>\<open>console.log\<close>:
  no fetch and no state update.
\<close>

theorem insert_notification_is_noop:
  "fst (on_comment_insert newCommentData s) = s \<and>
   filter (\<lambda>c. \<not> is_console c) (snd (on_comment_insert newCommentData s)) = []"
  by (simp add: on_comment_insert_def)

lemma trim_empty_iff: "trim t = [] \<longleftrightarrow> (\<forall>c\<in>set t. is_space c)"
proof
  assume "trim t = []"
  then have all: "\<forall>x\<in>set (dropWhile is_space t). is_space x"
    by (simp add: trim_def)
  have "dropWhile is_space t = []"
  proof (rule ccontr)
    assume ne: "dropWhile is_space t \<noteq> []"
    then have "\<not> is_space (hd (dropWhile is_space t))" by (rule hd_dropWhile)
    moreover have "hd (dropWhile is_space t) \<in> set (dropWhile is_space t)" using ne by simp
    ultimately show False using all by blast
  qed
  then show "\<forall>c\<in>set t. is_space c" by simp
next
  assume "\<forall>c\<in>set t. is_space c"
  then have d: "dropWhile is_space t = []" by simp
  show "trim t = []" unfolding trim_def d by simp
qed

lemma blank_iff:
  "blank t \<longleftrightarrow> (t = None \<or> (\<exists>x. t = Some x \<and> (\<forall>c\<in>set x. is_space c)))"
  by (cases t) (auto simp: blank_def trim_empty_iff)

lemma insert_calls:
  "InsertComment d \<in> set (snd (handleSubmitComment props user response parentId (s, inputs))) \<longleftrightarrow>
   \<not> blank (commentText parentId s inputs) \<and>
   d = commentData props user parentId s (the (commentText parentId s inputs))"
  by (auto simp: handleSubmitComment_def Let_def)

lemma commentText_isAnonymous [simp]:
  "commentText parentId (s\<lparr>isAnonymous := a\<rparr>) inputs = commentText parentId s inputs"
  by (simp add: commentText_def)

lemma snd_handleSubmitComment:
  "snd (handleSubmitComment props user response parentId (s, inputs)) =
     (if blank (commentText parentId s inputs) then [PreventDefault, StopPropagation]
      else [PreventDefault, StopPropagation, ConsoleLog ''Submitting comment data:'',
            InsertComment (commentData props user parentId s (the (commentText parentId s inputs)))] @
           (if res_error response = None \<and> res_data response \<noteq> None
            then [ConsoleLog ''Comment submission successful:'']
            else if res_error response \<noteq> None then [ConsoleError ''Error submitting comment:'']
            else []))"
  by (simp add: handleSubmitComment_def Let_def)

lemmas handler_eval =
  snd_handleSubmitComment blank_def commentText_def truthy_def trim_def is_space_def
  commentData_def userIdToSend_def example_props_def example_state_def example_response_def

text \<open>
  Claim C9. When the text being submitted is missing, empty or white space only,
  \<open>handleSubmitComment\<close> returns with the state and the input fields unchanged, having
  called only \<^verbatim>\<open>preventDefault\<close> and \<^verbatim>\<open>stopPropagation\<close>; and whenever an insert is
  issued, the text has a character that is no white space.
\<close>

theorem blank_comment_is_not_submitted:
  "((commentText parentId s inputs = None \<or>
     (\<exists>t. commentText parentId s inputs = Some t \<and> (\<forall>c\<in>set t. is_space c))) \<longrightarrow>
      handleSubmitComment props user response parentId (s, inputs) =
        ((s, inputs), [PreventDefault, StopPropagation])) \<and>
   (InsertComment d \<in> set (snd (handleSubmitComment props user response parentId (s, inputs))) \<longrightarrow>
      (\<exists>t. commentText parentId s inputs = Some t \<and> (\<exists>c\<in>set t. \<not> is_space c)))"
proof (intro conjI impI)
  assume "commentText parentId s inputs = None \<or>
     (\<exists>t. commentText parentId s inputs = Some t \<and> (\<forall>c\<in>set t. is_space c))"
  then have "blank (commentText parentId s inputs)" by (simp add: blank_iff)
  then show "handleSubmitComment props user response parentId (s, inputs) =
        ((s, inputs), [PreventDefault, StopPropagation])"
    by (simp add: handleSubmitComment_def)
next
  assume "InsertComment d \<in> set (snd (handleSubmitComment props user response parentId (s, inputs)))"
  then have "\<not> blank (commentText parentId s inputs)" by (simp add: insert_calls)
  then show "\<exists>t. commentText parentId s inputs = Some t \<and> (\<exists>c\<in>set t. \<not> is_space c)"
    by (cases "commentText parentId s inputs") (auto simp: blank_iff)
qed

theorem blank_comment_is_not_submitted_witness:
  "commentText (Some 4) example_state [4 \<mapsto> ''   ''] = Some ''   '' \<and>
   list_all is_space ''   '' \<and>
   handleSubmitComment example_props (Some \<lparr>id_u = ''u7''\<rparr>) example_response (Some 4)
       (example_state, [4 \<mapsto> ''   '']) =
     ((example_state, [4 \<mapsto> ''   '']), [PreventDefault, StopPropagation]) \<and>
   InsertComment \<lparr>new_content = ''hi'', new_user_id = None, new_parent_comment_id = None,
       new_category_id = Some 3, new_item_id = None\<rparr>
     \<in> set (snd (handleSubmitComment example_props (Some \<lparr>id_u = ''u7''\<rparr>) example_response None
         (example_state, Map.empty))) \<and>
   (\<exists>t. commentText None example_state Map.empty = Some t \<and> (\<exists>c\<in>set t. \<not> is_space c))"
proof -
  have h: "commentText (Some 4) example_state [4 \<mapsto> ''   ''] = Some ''   ''"
    by (simp add: commentText_def truthy_def)
  have sp: "list_all is_space ''   ''" by (simp add: is_space_def)
  then have "\<forall>c\<in>set ''   ''. is_space c" by (simp add: list_all_iff)
  with h blank_comment_is_not_submitted[of "Some 4" example_state "[4 \<mapsto> ''   '']"
      example_props "Some \<lparr>id_u = ''u7''\<rparr>" example_response]
  have 1: "handleSubmitComment example_props (Some \<lparr>id_u = ''u7''\<rparr>) example_response (Some 4)
       (example_state, [4 \<mapsto> ''   '']) =
     ((example_state, [4 \<mapsto> ''   '']), [PreventDefault, StopPropagation])"
    by blast
  have 2: "InsertComment \<lparr>new_content = ''hi'', new_user_id = None, new_parent_comment_id = None,
       new_category_id = Some 3, new_item_id = None\<rparr>
     \<in> set (snd (handleSubmitComment example_props (Some \<lparr>id_u = ''u7''\<rparr>) example_response None
         (example_state, Map.empty)))"
    by (simp add: handler_eval)
  with blank_comment_is_not_submitted[where parentId = None and s = example_state
      and inputs = Map.empty and props = example_props
      and user = "Some \<lparr>id_u = ''u7''\<rparr>" and response = example_response]
  have 3: "\<exists>t. commentText None example_state Map.empty = Some t \<and> (\<exists>c\<in>set t. \<not> is_space c)"
    by blast
  from h sp 1 2 3 show ?thesis by blast
qed

text \<open>
  Claim C10, amended. For a reply, that is a parent id that is neither null nor zero,
  by a logged-in user, two runs that differ in the anonymous flag only make the same
  calls, and the \<open>user_id\<close> of the inserted comment is the user's id; with no
  logged-in user, for any parent id, the two runs make the same calls and the
  inserted \<open>user_id\<close> is null.
\<close>

theorem anonymous_flag_has_no_influence:
  "(truthy parentId \<longrightarrow>
      snd (handleSubmitComment props (Some u) response parentId (s\<lparr>isAnonymous := a\<rparr>, inputs)) =
      snd (handleSubmitComment props (Some u) response parentId (s\<lparr>isAnonymous := b\<rparr>, inputs)) \<and>
      (InsertComment d \<in> set (snd (handleSubmitComment props (Some u) response parentId (s, inputs)))
         \<longrightarrow> new_user_id d = Some (id_u u))) \<and>
   snd (handleSubmitComment props None response parentId (s\<lparr>isAnonymous := a\<rparr>, inputs)) =
   snd (handleSubmitComment props None response parentId (s\<lparr>isAnonymous := b\<rparr>, inputs)) \<and>
   (InsertComment d \<in> set (snd (handleSubmitComment props None response parentId (s, inputs)))
      \<longrightarrow> new_user_id d = None)"
  by (simp add: snd_handleSubmitComment insert_calls commentData_def userIdToSend_def)

theorem anonymous_flag_has_no_influence_witness:
  "truthy (Some 4) \<and>
   snd (handleSubmitComment example_props (Some \<lparr>id_u = ''u7''\<rparr>) example_response (Some 4)
          (example_state\<lparr>isAnonymous := True\<rparr>, [4 \<mapsto> ''a reply''])) =
   snd (handleSubmitComment example_props (Some \<lparr>id_u = ''u7''\<rparr>) example_response (Some 4)
          (example_state\<lparr>isAnonymous := False\<rparr>, [4 \<mapsto> ''a reply''])) \<and>
   snd (handleSubmitComment example_props (Some \<lparr>id_u = ''u7''\<rparr>) example_response (Some 4)
          (example_state, [4 \<mapsto> ''a reply''])) =
     [PreventDefault, StopPropagation, ConsoleLog ''Submitting comment data:'',
      InsertComment \<lparr>new_content = ''a reply'', new_user_id = Some ''u7'',
        new_parent_comment_id = Some 4, new_category_id = Some 3, new_item_id = None\<rparr>,
      ConsoleLog ''Comment submission successful:''] \<and>
   snd (handleSubmitComment example_props None example_response None
          (example_state\<lparr>isAnonymous := True\<rparr>, Map.empty)) =
   snd (handleSubmitComment example_props None example_response None
          (example_state\<lparr>isAnonymous := False\<rparr>, Map.empty)) \<and>
   snd (handleSubmitComment example_props None example_response None (example_state, Map.empty)) =
     [PreventDefault, StopPropagation, ConsoleLog ''Submitting comment data:'',
      InsertComment \<lparr>new_content = ''hi'', new_user_id = None,
        new_parent_comment_id = None, new_category_id = Some 3, new_item_id = None\<rparr>,
      ConsoleLog ''Comment submission successful:'']"
proof -
  have t: "truthy (Some 4)" by (simp add: truthy_def)
  have r: "snd (handleSubmitComment example_props (Some \<lparr>id_u = ''u7''\<rparr>) example_response (Some 4)
          (example_state, [4 \<mapsto> ''a reply''])) =
     [PreventDefault, StopPropagation, ConsoleLog ''Submitting comment data:'',
      InsertComment \<lparr>new_content = ''a reply'', new_user_id = Some ''u7'',
        new_parent_comment_id = Some 4, new_category_id = Some 3, new_item_id = None\<rparr>,
      ConsoleLog ''Comment submission successful:'']"
    and n: "snd (handleSubmitComment example_props None example_response None (example_state, Map.empty)) =
     [PreventDefault, StopPropagation, ConsoleLog ''Submitting comment data:'',
      InsertComment \<lparr>new_content = ''hi'', new_user_id = None,
        new_parent_comment_id = None, new_category_id = Some 3, new_item_id = None\<rparr>,
      ConsoleLog ''Comment submission successful:'']"
    by (simp_all add: handler_eval)
  from anonymous_flag_has_no_influence[where parentId = "Some 4" and props = example_props
      and u = "\<lparr>id_u = ''u7''\<rparr>" and response = example_response and s = example_state
      and a = True and b = False and inputs = "[4 \<mapsto> ''a reply'']"] t
  have 1: "snd (handleSubmitComment example_props (Some \<lparr>id_u = ''u7''\<rparr>) example_response (Some 4)
          (example_state\<lparr>isAnonymous := True\<rparr>, [4 \<mapsto> ''a reply''])) =
   snd (handleSubmitComment example_props (Some \<lparr>id_u = ''u7''\<rparr>) example_response (Some 4)
          (example_state\<lparr>isAnonymous := False\<rparr>, [4 \<mapsto> ''a reply'']))"
    by blast
  from anonymous_flag_has_no_influence[where parentId = None and props = example_props
      and response = example_response and s = example_state
      and a = True and b = False and inputs = Map.empty]
  have 2: "snd (handleSubmitComment example_props None example_response None
          (example_state\<lparr>isAnonymous := True\<rparr>, Map.empty)) =
   snd (handleSubmitComment example_props None example_response None
          (example_state\<lparr>isAnonymous := False\<rparr>, Map.empty))"
    by blast
  from t r n 1 2 show ?thesis by blast
qed

text \<open>
  Claim C10 as stated, for every parent id that is not null, fails at the parent id 0,
  which the handler tests for truthiness: the text is taken from the main input and
  the anonymous flag decides the \<open>user_id\<close>.
\<close>

theorem anonymous_flag_has_no_influence_counterexample:
  "snd (handleSubmitComment example_props (Some \<lparr>id_u = ''u7''\<rparr>) example_response (Some 0)
          (example_state\<lparr>isAnonymous := True\<rparr>, [0 \<mapsto> ''a reply''])) =
     [PreventDefault, StopPropagation, ConsoleLog ''Submitting comment data:'',
      InsertComment \<lparr>new_content = ''hi'', new_user_id = None,
        new_parent_comment_id = Some 0, new_category_id = Some 3, new_item_id = None\<rparr>,
      ConsoleLog ''Comment submission successful:''] \<and>
   snd (handleSubmitComment example_props (Some \<lparr>id_u = ''u7''\<rparr>) example_response (Some 0)
          (example_state\<lparr>isAnonymous := False\<rparr>, [0 \<mapsto> ''a reply''])) =
     [PreventDefault, StopPropagation, ConsoleLog ''Submitting comment data:'',
      InsertComment \<lparr>new_content = ''hi'', new_user_id = Some ''u7'',
        new_parent_comment_id = Some 0, new_category_id = Some 3, new_item_id = None\<rparr>,
      ConsoleLog ''Comment submission successful:'']"
  by (simp add: snd_handleSubmitComment blank_def commentText_def truthy_def trim_def is_space_def
        commentData_def userIdToSend_def example_props_def example_state_def example_response_def)

section \<open>Properties of the admin managers\<close>

text \<open>
  Claim C6. In \<open>handleUploadProof\<close>, when the upload of the file succeeds and the
  insert of the proof record fails, the calls are: the upload, the public URL, the
  insert, and then a \<^verbatim>\<open>remove\<close> of the path that was uploaded; the operation ends with
  the error of the insert. The answer of the \<^verbatim>\<open>remove\<close> is not read: whatever it is,
  the outcome is the same.
\<close>

theorem failed_insert_is_rolled_back:
  assumes "selectedFile s = Some file" and "uploadError answers = None"
    and "publicUrl answers = Some u" and "u \<noteq> []" and "insertError answers = Some m"
  shows "snd (handleUploadProof now answers s) =
           [PreventDefault,
            StorageUpload PROOF_IMAGE_BUCKET (proofFilePath now file) file,
            StorageGetPublicUrl PROOF_IMAGE_BUCKET (proofFilePath now file),
            InsertProof u (if proofDate s = [] then None else Some (proofDate s)),
            StorageRemove PROOF_IMAGE_BUCKET [proofFilePath now file],
            ConsoleError ''Error during proof upload:''] \<and>
         fst (handleUploadProof now answers s) =
           s\<lparr>error := Some (''Failed to upload proof: DB Insert Error: '' @ m),
             isUploading := False\<rparr> \<and>
         handleUploadProof now (answers\<lparr>rollbackError := r\<rparr>) s = handleUploadProof now answers s"
  using assms by (simp add: handleUploadProof_def uploadProofBody_def Let_def)

theorem failed_insert_is_rolled_back_witness:
  "selectedFile example_proofs_state = Some \<lparr>name = ''shot.v2.png''\<rparr> \<and>
   uploadError example_upload_answers = None \<and>
   insertError example_upload_answers = Some ''row violates policy'' \<and>
   snd (handleUploadProof 1714 example_upload_answers example_proofs_state) =
     [PreventDefault,
      StorageUpload ''proof-images'' ''proof-1714.png'' \<lparr>name = ''shot.v2.png''\<rparr>,
      StorageGetPublicUrl ''proof-images'' ''proof-1714.png'',
      InsertProof ''https://h.supabase.co/storage/v1/object/public/proof-images/proof-1714.png''
        (Some ''2025-05-01''),
      StorageRemove ''proof-images'' [''proof-1714.png''],
      ConsoleError ''Error during proof upload:''] \<and>
   error (fst (handleUploadProof 1714 example_upload_answers example_proofs_state)) =
     Some ''Failed to upload proof: DB Insert Error: row violates policy''"
proof -
  have path: "proofFilePath 1714 \<lparr>name = ''shot.v2.png''\<rparr> = ''proof-1714.png''"
    by (simp add: proofFilePath_def string_of_nat.simps)
  have h: "selectedFile example_proofs_state = Some \<lparr>name = ''shot.v2.png''\<rparr>"
    "uploadError example_upload_answers = None"
    "publicUrl example_upload_answers =
       Some ''https://h.supabase.co/storage/v1/object/public/proof-images/proof-1714.png''"
    "''https://h.supabase.co/storage/v1/object/public/proof-images/proof-1714.png'' \<noteq> []"
    "insertError example_upload_answers = Some ''row violates policy''"
    by (simp_all add: example_proofs_state_def example_upload_answers_def)
  from failed_insert_is_rolled_back[OF h, of 1714] h path
  show ?thesis
    by (simp add: PROOF_IMAGE_BUCKET_def example_proofs_state_def)
qed

lemma split_on_not_Nil: "split_on sep s \<noteq> []"
  by (induction s) (auto split: list.splits)

lemma split_on_append:
  "split_on sep (a @ sep # b) = split_on sep a @ split_on sep b"
proof (induction a)
  case Nil
  show ?case by simp
next
  case (Cons c a)
  obtain w ws where w: "split_on sep a = w # ws"
    using split_on_not_Nil[of sep a] by (cases "split_on sep a") auto
  with Cons show ?case by simp
qed

lemma join_Cons_Cons: "join sep ((c # w) # ws) = c # join sep (w # ws)"
  by (cases ws) simp_all

lemma join_split_on: "join sep (split_on sep s) = s"
proof (induction s)
  case Nil
  show ?case by simp
next
  case (Cons c s)
  obtain w ws where w: "split_on sep s = w # ws"
    using split_on_not_Nil[of sep s] by (cases "split_on sep s") auto
  with Cons show ?case by (simp add: join_Cons_Cons)
qed

lemma indexOf_ge: "- 1 \<le> indexOf ys x"
  by (induction ys) (auto simp: Let_def)

lemma indexOf_append:
  "x \<notin> set xs \<Longrightarrow>
   indexOf (xs @ ys) x = (if indexOf ys x < 0 then -1 else int (length xs) + indexOf ys x)"
proof (induction xs)
  case Nil
  show ?case using indexOf_ge[of ys x] by simp
next
  case (Cons y xs)
  then have "y \<noteq> x" "x \<notin> set xs" by auto
  with Cons.IH show ?case using indexOf_ge[of ys x] by (simp add: Let_def)
qed

lemma split_on_prefixed:
  "split_on CHR ''/'' (base @ pathPrefix ''proof-images'' @ rest) =
     split_on CHR ''/'' base @ [''storage'', ''v1'', ''object'', ''public'', ''proof-images''] @
     split_on CHR ''/'' rest"
proof -
  have "base @ pathPrefix ''proof-images'' @ rest =
          base @ CHR ''/'' # (''storage'' @ CHR ''/'' # (''v1'' @ CHR ''/'' # (''object'' @ CHR ''/'' #
            (''public'' @ CHR ''/'' # (''proof-images'' @ CHR ''/'' # rest)))))"
    by (simp add: pathPrefix_def)
  then show ?thesis
    by (simp only: split_on_append) simp
qed

lemma proof_path_from_url:
  assumes "''proof-images'' \<notin> set (split_on CHR ''/'' base)"
  shows "join CHR ''/'' (slice (split_on CHR ''/'' (base @ pathPrefix ''proof-images'' @ rest))
           (indexOf (split_on CHR ''/'' (base @ pathPrefix ''proof-images'' @ rest)) ''proof-images'' + 1))
         = rest"
proof -
  have idx: "indexOf (split_on CHR ''/'' (base @ pathPrefix ''proof-images'' @ rest)) ''proof-images''
      = int (length (split_on CHR ''/'' base)) + 4"
    unfolding split_on_prefixed by (simp add: indexOf_append[OF assms])
  have "slice (split_on CHR ''/'' (base @ pathPrefix ''proof-images'' @ rest))
           (int (length (split_on CHR ''/'' base)) + 4 + 1) = split_on CHR ''/'' rest"
    unfolding split_on_prefixed slice_def by (simp add: nat_add_distrib)
  then show ?thesis by (simp add: idx join_split_on)
qed

lemma startsWith_append [simp]: "startsWith (p @ rest) p"
  by (simp add: startsWith_def)

lemma substring_append [simp]: "substring (p @ rest) (length p) = rest"
  by (simp add: substring_def)

lemma storage_removes_append [simp]:
  "storage_removes (xs @ ys) = storage_removes xs @ storage_removes ys"
  by (induction xs rule: storage_removes.induct) simp_all

lemma removes_deleteImage:
  assumes "confirmed answers" and "parseURL (url img) = Inr u"
  shows "storage_removes (snd (deleteImage parseURL answers loaded img s)) =
     (if startsWith (pathname u) (pathPrefix ''images'') \<and>
         substring (pathname u) (length (pathPrefix ''images'')) \<noteq> []
      then [(''images'', [substring (pathname u) (length (pathPrefix ''images''))])] else [])"
  using assms
  by (simp add: deleteImage_def loadImages_def Let_def split_beta split: option.splits sum.splits)

lemma removes_removeStored:
  "storage_removes (snd (removeStored removeErr bucketName filePath calls s)) =
     storage_removes calls @ (if filePath \<noteq> [] then [(bucketName, [filePath])] else [])"
  by (simp add: removeStored_def split: option.splits)

lemma removes_deleteStoredImage:
  assumes "x \<noteq> []" and "parseURL x = Inr u"
  shows "storage_removes (snd (deleteStoredImage parseURL decode removeErr (Some x) s)) =
     (let bucketName = ''programminglistbuckets'';
          segments = split_on CHR ''/'' (pathname u);
          path = (if startsWith (pathname u) (pathPrefix bucketName)
                  then substring (pathname u) (length (pathPrefix bucketName))
                  else join CHR ''/'' (slice segments (indexOf segments bucketName + 1)))
      in if path = [] \<and> \<not> startsWith (pathname u) (pathPrefix bucketName) then []
         else (case decode path of
                 None \<Rightarrow> []
               | Some filePath \<Rightarrow> if filePath \<noteq> [] then [(bucketName, [filePath])] else []))"
  using assms
  by (simp add: deleteStoredImage_def Let_def removes_removeStored split: option.splits)

lemma removes_handleDeleteProof:
  assumes "confirmed answers"
  shows "storage_removes (snd (handleDeleteProof answers pf s)) =
     (let urlParts = split_on CHR ''/'' (image_url pf);
          filePath = join CHR ''/'' (slice urlParts (indexOf urlParts ''proof-images'' + 1))
      in if filePath \<noteq> [] then [(''proof-images'', [filePath])] else [])"
  using assms
  by (simp add: handleDeleteProof_def Let_def PROOF_IMAGE_BUCKET_def split: option.splits)

lemma example_paths:
  "example_parseURL ''https://h.supabase.co/storage/v1/object/public/images/proofs/2/a.png'' =
     Inr \<lparr>pathname = pathPrefix ''images'' @ ''proofs/2/a.png''\<rparr>"
  "example_parseURL ''https://cdn.example.org/img/a.png'' = Inr \<lparr>pathname = ''/img/a.png''\<rparr>"
  "example_parseURL ''https://h.supabase.co/storage/v1/object/public/programminglistbuckets/my%20file.png''
     = Inr \<lparr>pathname = pathPrefix ''programminglistbuckets'' @ ''my%20file.png''\<rparr>"
  by (simp_all add: example_parseURL_def startsWith_def pathPrefix_def)

lemma stored_path_from_segments:
  assumes "''programminglistbuckets'' \<notin> set (split_on CHR ''/'' base)"
  shows "join CHR ''/''
           (slice (split_on CHR ''/'' (base @ ''/programminglistbuckets/'' @ rest))
              (indexOf (split_on CHR ''/'' (base @ ''/programminglistbuckets/'' @ rest))
                 ''programminglistbuckets'' + 1))
         = rest"
proof -
  have eq: "base @ ''/programminglistbuckets/'' @ rest =
          base @ CHR ''/'' # (''programminglistbuckets'' @ CHR ''/'' # rest)"
    by simp
  have sp: "split_on CHR ''/'' (base @ ''/programminglistbuckets/'' @ rest) =
      split_on CHR ''/'' base @ [''programminglistbuckets''] @ split_on CHR ''/'' rest"
    unfolding eq by (simp only: split_on_append) simp
  have idx: "indexOf (split_on CHR ''/'' (base @ ''/programminglistbuckets/'' @ rest))
       ''programminglistbuckets'' = int (length (split_on CHR ''/'' base))"
    unfolding sp by (simp add: indexOf_append[OF assms])
  have "slice (split_on CHR ''/'' (base @ ''/programminglistbuckets/'' @ rest))
           (int (length (split_on CHR ''/'' base)) + 1) = split_on CHR ''/'' rest"
    unfolding sp slice_def by (simp add: nat_add_distrib)
  then show ?thesis by (simp only: idx join_split_on)
qed

lemma stored_fallback:
  assumes "x \<noteq> []" and "parseURL x = Inr v"
    and "\<not> startsWith (pathname v) (pathPrefix ''programminglistbuckets'')"
    and "pathname v = base @ ''/programminglistbuckets/'' @ rest"
    and "''programminglistbuckets'' \<notin> set (split_on CHR ''/'' base)"
    and "rest \<noteq> []" and "decode rest = Some p" and "p \<noteq> []"
  shows "storage_removes (snd (deleteStoredImage parseURL decode removeErr (Some x) ms)) =
      [(''programminglistbuckets'', [p])]"
proof -
  have "join CHR ''/''
           (slice (split_on CHR ''/'' (pathname v))
              (indexOf (split_on CHR ''/'' (pathname v)) ''programminglistbuckets'' + 1)) = rest"
    unfolding assms(4) by (rule stored_path_from_segments[OF assms(5)])
  then show ?thesis
    using assms(1,2,3,6,7,8) by (simp add: removes_deleteStoredImage Let_def)
qed

text \<open>
  Claim C7, amended. When the path of the image URL is the prefix
  \<^verbatim>\<open>/storage/v1/object/public/<bucket>/\<close> followed by a remainder that is not empty:
  \<open>deleteImage\<close> passes exactly the remainder to the storage \<^verbatim>\<open>remove\<close>;
  \<open>deleteStoredImage\<close> passes what \<^verbatim>\<open>decodeURIComponent\<close> makes of the remainder, when
  that is not empty. \<open>handleDeleteProof\<close> does not parse the URL: it passes the text
  of the URL after the prefix, when no segment of the URL before the prefix is the
  name of the bucket. When the path does not begin with the prefix, \<open>deleteImage\<close>
  derives no path and calls no \<^verbatim>\<open>remove\<close>, and \<open>deleteStoredImage\<close> falls back on the
  segments of the path after the first one that is the name of the bucket, and passes
  what \<^verbatim>\<open>decodeURIComponent\<close> makes of them. What is passed when no segment is the name
  of the bucket is not part of this statement.
\<close>

theorem deletion_passes_path_remainder:
  "(confirmed answers \<and> parseURL (url img) = Inr u \<and>
      pathname u = pathPrefix ''images'' @ rest \<and> rest \<noteq> [] \<longrightarrow>
    storage_removes (snd (deleteImage parseURL answers loaded img s)) = [(''images'', [rest])]) \<and>
   (confirmed answers \<and> parseURL (url img) = Inr u \<and>
      \<not> startsWith (pathname u) (pathPrefix ''images'') \<longrightarrow>
    storage_removes (snd (deleteImage parseURL answers loaded img s)) = []) \<and>
   (x \<noteq> [] \<and> parseURL x = Inr v \<and>
      pathname v = pathPrefix ''programminglistbuckets'' @ rest \<and>
      decode rest = Some p \<and> p \<noteq> [] \<longrightarrow>
    storage_removes (snd (deleteStoredImage parseURL decode removeErr (Some x) ms)) =
      [(''programminglistbuckets'', [p])]) \<and>
   (confirmed answers \<and> image_url pf = base @ pathPrefix ''proof-images'' @ rest \<and>
      ''proof-images'' \<notin> set (split_on CHR ''/'' base) \<and> rest \<noteq> [] \<longrightarrow>
    storage_removes (snd (handleDeleteProof answers pf ps)) = [(''proof-images'', [rest])]) \<and>
   (x \<noteq> [] \<and> parseURL x = Inr v \<and>
      \<not> startsWith (pathname v) (pathPrefix ''programminglistbuckets'') \<and>
      pathname v = base @ ''/programminglistbuckets/'' @ rest \<and>
      ''programminglistbuckets'' \<notin> set (split_on CHR ''/'' base) \<and> rest \<noteq> [] \<and>
      decode rest = Some p \<and> p \<noteq> [] \<longrightarrow>
    storage_removes (snd (deleteStoredImage parseURL decode removeErr (Some x) ms)) =
      [(''programminglistbuckets'', [p])])"
proof (intro conjI impI)
  assume "confirmed answers \<and> parseURL (url img) = Inr u \<and>
      pathname u = pathPrefix ''images'' @ rest \<and> rest \<noteq> []"
  then show "storage_removes (snd (deleteImage parseURL answers loaded img s)) = [(''images'', [rest])]"
    by (simp add: removes_deleteImage)
next
  assume "confirmed answers \<and> parseURL (url img) = Inr u \<and>
      \<not> startsWith (pathname u) (pathPrefix ''images'')"
  then show "storage_removes (snd (deleteImage parseURL answers loaded img s)) = []"
    by (simp add: removes_deleteImage)
next
  assume "x \<noteq> [] \<and> parseURL x = Inr v \<and>
      pathname v = pathPrefix ''programminglistbuckets'' @ rest \<and>
      decode rest = Some p \<and> p \<noteq> []"
  then show "storage_removes (snd (deleteStoredImage parseURL decode removeErr (Some x) ms)) =
      [(''programminglistbuckets'', [p])]"
    by (simp add: removes_deleteStoredImage)
next
  assume a: "confirmed answers \<and> image_url pf = base @ pathPrefix ''proof-images'' @ rest \<and>
      ''proof-images'' \<notin> set (split_on CHR ''/'' base) \<and> rest \<noteq> []"
  then have "join CHR ''/'' (slice (split_on CHR ''/'' (image_url pf))
           (indexOf (split_on CHR ''/'' (image_url pf)) ''proof-images'' + 1)) = rest"
    using proof_path_from_url[of base rest] by simp
  with a show "storage_removes (snd (handleDeleteProof answers pf ps)) = [(''proof-images'', [rest])]"
    by (simp add: removes_handleDeleteProof)
next
  assume "x \<noteq> [] \<and> parseURL x = Inr v \<and>
      \<not> startsWith (pathname v) (pathPrefix ''programminglistbuckets'') \<and>
      pathname v = base @ ''/programminglistbuckets/'' @ rest \<and>
      ''programminglistbuckets'' \<notin> set (split_on CHR ''/'' base) \<and> rest \<noteq> [] \<and>
      decode rest = Some p \<and> p \<noteq> []"
  then show "storage_removes (snd (deleteStoredImage parseURL decode removeErr (Some x) ms)) =
      [(''programminglistbuckets'', [p])]"
    using stored_fallback[of x parseURL v base rest decode p removeErr ms] by blast
qed

theorem deletion_passes_path_remainder_witness:
  "confirmed example_delete_answers \<and>
   storage_removes (snd (deleteImage example_parseURL example_delete_answers (Inr [])
     (example_image ''https://h.supabase.co/storage/v1/object/public/images/proofs/2/a.png'')
     example_images_state)) = [(''images'', [''proofs/2/a.png''])] \<and>
   \<not> startsWith ''/img/a.png'' (pathPrefix ''images'') \<and>
   storage_removes (snd (deleteImage example_parseURL example_delete_answers (Inr [])
     (example_image ''https://cdn.example.org/img/a.png'') example_images_state)) = [] \<and>
   example_decode ''my%20file.png'' = Some ''my file.png'' \<and>
   storage_removes (snd (deleteStoredImage example_parseURL example_decode None
     (Some ''https://h.supabase.co/storage/v1/object/public/programminglistbuckets/my%20file.png'')
     example_images_state)) = [(''programminglistbuckets'', [''my file.png''])] \<and>
   ''proof-images'' \<notin> set (split_on CHR ''/'' ''https://h.supabase.co'') \<and>
   storage_removes (snd (handleDeleteProof example_delete_answers
     (example_proof (''https://h.supabase.co'' @ pathPrefix ''proof-images'' @ ''proof-1714.png''))
     example_proofs_state)) = [(''proof-images'', [''proof-1714.png''])] \<and>
   example_parseURL ''https://h.supabase.co/files/programminglistbuckets/my%20file.png''
     = Inr \<lparr>pathname = ''/files'' @ ''/programminglistbuckets/'' @ ''my%20file.png''\<rparr> \<and>
   \<not> startsWith (''/files'' @ ''/programminglistbuckets/'' @ ''my%20file.png'')
         (pathPrefix ''programminglistbuckets'') \<and>
   ''programminglistbuckets'' \<notin> set (split_on CHR ''/'' ''/files'') \<and>
   storage_removes (snd (deleteStoredImage example_parseURL example_decode None
     (Some ''https://h.supabase.co/files/programminglistbuckets/my%20file.png'')
     example_images_state)) = [(''programminglistbuckets'', [''my file.png''])]"
proof -
  let ?u1 = "''https://h.supabase.co/storage/v1/object/public/images/proofs/2/a.png''"
  let ?u2 = "''https://cdn.example.org/img/a.png''"
  let ?u3 = "''https://h.supabase.co/storage/v1/object/public/programminglistbuckets/my%20file.png''"
  have c: "confirmed example_delete_answers" by (simp add: example_delete_answers_def)
  have p1: "example_parseURL (url (example_image ?u1)) =
      Inr \<lparr>pathname = pathPrefix ''images'' @ ''proofs/2/a.png''\<rparr>"
    by (simp add: example_image_def example_paths)
  have q1: "pathname \<lparr>pathname = pathPrefix ''images'' @ ''proofs/2/a.png''\<rparr> =
      pathPrefix ''images'' @ ''proofs/2/a.png'' \<and> ''proofs/2/a.png'' \<noteq> []"
    by simp
  have 1: "storage_removes (snd (deleteImage example_parseURL example_delete_answers (Inr [])
     (example_image ?u1) example_images_state)) = [(''images'', [''proofs/2/a.png''])]"
    using c p1 q1
      deletion_passes_path_remainder[where answers = example_delete_answers
        and parseURL = example_parseURL and img = "example_image ?u1"
        and u = "\<lparr>pathname = pathPrefix ''images'' @ ''proofs/2/a.png''\<rparr>"
        and rest = "''proofs/2/a.png''" and loaded = "Inr []" and s = example_images_state]
    by blast
  have n: "\<not> startsWith ''/img/a.png'' (pathPrefix ''images'')"
    by (simp add: startsWith_def pathPrefix_def)
  have p2: "example_parseURL (url (example_image ?u2)) = Inr \<lparr>pathname = ''/img/a.png''\<rparr>"
    by (simp add: example_image_def example_paths)
  have q2: "\<not> startsWith (pathname \<lparr>pathname = ''/img/a.png''\<rparr>) (pathPrefix ''images'')"
    using n by simp
  have 2: "storage_removes (snd (deleteImage example_parseURL example_delete_answers (Inr [])
     (example_image ?u2) example_images_state)) = []"
    using c p2 q2
      deletion_passes_path_remainder[where answers = example_delete_answers
        and parseURL = example_parseURL and img = "example_image ?u2"
        and u = "\<lparr>pathname = ''/img/a.png''\<rparr>" and loaded = "Inr []"
        and s = example_images_state]
    by blast
  have d: "example_decode ''my%20file.png'' = Some ''my file.png''"
    by (simp add: hex_value_def)
  have q3: "?u3 \<noteq> [] \<and>
      pathname \<lparr>pathname = pathPrefix ''programminglistbuckets'' @ ''my%20file.png''\<rparr> =
        pathPrefix ''programminglistbuckets'' @ ''my%20file.png'' \<and> ''my file.png'' \<noteq> []"
    by simp
  have 3: "storage_removes (snd (deleteStoredImage example_parseURL example_decode None
     (Some ?u3) example_images_state)) = [(''programminglistbuckets'', [''my file.png''])]"
    using d q3 example_paths(3)
      deletion_passes_path_remainder[where parseURL = example_parseURL and x = ?u3
        and v = "\<lparr>pathname = pathPrefix ''programminglistbuckets'' @ ''my%20file.png''\<rparr>"
        and rest = "''my%20file.png''" and decode = example_decode and p = "''my file.png''"
        and removeErr = None and ms = example_images_state]
    by blast
  have b: "''proof-images'' \<notin> set (split_on CHR ''/'' ''https://h.supabase.co'')"
    by simp
  have q4: "image_url (example_proof (''https://h.supabase.co'' @ pathPrefix ''proof-images'' @ ''proof-1714.png''))
      = ''https://h.supabase.co'' @ pathPrefix ''proof-images'' @ ''proof-1714.png'' \<and>
      ''proof-1714.png'' \<noteq> []"
    by (simp add: example_proof_def)
  have 4: "storage_removes (snd (handleDeleteProof example_delete_answers
     (example_proof (''https://h.supabase.co'' @ pathPrefix ''proof-images'' @ ''proof-1714.png''))
     example_proofs_state)) = [(''proof-images'', [''proof-1714.png''])]"
    using c b q4 deletion_passes_path_remainder[where answers = example_delete_answers
        and pf = "example_proof (''https://h.supabase.co'' @ pathPrefix ''proof-images'' @ ''proof-1714.png'')"
        and base = "''https://h.supabase.co''" and rest = "''proof-1714.png''"
        and ps = example_proofs_state]
    by blast
  let ?u5 = "''https://h.supabase.co/files/programminglistbuckets/my%20file.png''"
  have p5: "example_parseURL ?u5 =
      Inr \<lparr>pathname = ''/files'' @ ''/programminglistbuckets/'' @ ''my%20file.png''\<rparr>"
    by (simp add: example_parseURL_def startsWith_def)
  have n5: "\<not> startsWith (''/files'' @ ''/programminglistbuckets/'' @ ''my%20file.png'')
         (pathPrefix ''programminglistbuckets'')"
    by (simp add: startsWith_def pathPrefix_def)
  have b5: "''programminglistbuckets'' \<notin> set (split_on CHR ''/'' ''/files'')"
    by simp
  have q5: "?u5 \<noteq> [] \<and>
      \<not> startsWith (pathname \<lparr>pathname = ''/files'' @ ''/programminglistbuckets/'' @ ''my%20file.png''\<rparr>)
         (pathPrefix ''programminglistbuckets'') \<and>
      pathname \<lparr>pathname = ''/files'' @ ''/programminglistbuckets/'' @ ''my%20file.png''\<rparr> =
        ''/files'' @ ''/programminglistbuckets/'' @ ''my%20file.png'' \<and>
      ''my%20file.png'' \<noteq> [] \<and> ''my file.png'' \<noteq> []"
    using n5 by simp
  have 5: "storage_removes (snd (deleteStoredImage example_parseURL example_decode None
     (Some ?u5) example_images_state)) = [(''programminglistbuckets'', [''my file.png''])]"
    using d p5 b5 q5
      deletion_passes_path_remainder[where parseURL = example_parseURL and x = ?u5
        and v = "\<lparr>pathname = ''/files'' @ ''/programminglistbuckets/'' @ ''my%20file.png''\<rparr>"
        and base = "''/files''" and rest = "''my%20file.png''" and decode = example_decode
        and p = "''my file.png''" and removeErr = None and ms = example_images_state]
    by blast
  from c 1 n 2 d 3 b 4 p5 n5 b5 5 show ?thesis by blast
qed

text \<open>
  Claim C7 as stated fails. Within the prefix: \<open>deleteStoredImage\<close> decodes the
  remainder, so the escape \<^verbatim>\<open>%20\<close> is passed as a blank; \<open>deleteImage\<close> calls no
  \<^verbatim>\<open>remove\<close> when the remainder is empty; and \<open>handleDeleteProof\<close>, which splits the
  text of the URL, passes the query string along with the remainder of the path.
  Outside the prefix, for a URL none of whose segments is the name of the bucket:
  \<^verbatim>\<open>indexOf\<close> gives -1, \<^verbatim>\<open>slice(0)\<close> keeps every segment, and so \<open>handleDeleteProof\<close>
  passes the whole text of the URL and \<open>deleteStoredImage\<close> the whole path to
  \<^verbatim>\<open>remove\<close>; the tests \<^verbatim>\<open>if (!filePath)\<close> and \<^verbatim>\<open>if (potentialPath)\<close>, written for the
  case that no path could be determined, do not fire there.
\<close>

theorem deletion_passes_path_remainder_counterexample:
  "example_parseURL ''https://h.supabase.co/storage/v1/object/public/programminglistbuckets/my%20file.png''
     = Inr \<lparr>pathname = pathPrefix ''programminglistbuckets'' @ ''my%20file.png''\<rparr> \<and>
   storage_removes (snd (deleteStoredImage example_parseURL example_decode None
     (Some ''https://h.supabase.co/storage/v1/object/public/programminglistbuckets/my%20file.png'')
     example_images_state)) = [(''programminglistbuckets'', [''my file.png''])] \<and>
   example_parseURL ''https://h.supabase.co/storage/v1/object/public/images/''
     = Inr \<lparr>pathname = pathPrefix ''images'' @ []\<rparr> \<and>
   storage_removes (snd (deleteImage example_parseURL example_delete_answers (Inr [])
     (example_image ''https://h.supabase.co/storage/v1/object/public/images/'')
     example_images_state)) = [] \<and>
   example_parseURL ''https://h.supabase.co/storage/v1/object/public/proof-images/p.png?t=1''
     = Inr \<lparr>pathname = pathPrefix ''proof-images'' @ ''p.png''\<rparr> \<and>
   storage_removes (snd (handleDeleteProof example_delete_answers
     (example_proof ''https://h.supabase.co/storage/v1/object/public/proof-images/p.png?t=1'')
     example_proofs_state)) = [(''proof-images'', [''p.png?t=1''])] \<and>
   example_parseURL ''https://cdn.example.org/img/a.png'' = Inr \<lparr>pathname = ''/img/a.png''\<rparr> \<and>
   \<not> startsWith ''/img/a.png'' (pathPrefix ''proof-images'') \<and>
   \<not> startsWith ''/img/a.png'' (pathPrefix ''programminglistbuckets'') \<and>
   storage_removes (snd (handleDeleteProof example_delete_answers
     (example_proof ''https://cdn.example.org/img/a.png'') example_proofs_state))
     = [(''proof-images'', [''https://cdn.example.org/img/a.png''])] \<and>
   storage_removes (snd (deleteStoredImage example_parseURL example_decode None
     (Some ''https://cdn.example.org/img/a.png'') example_images_state))
     = [(''programminglistbuckets'', [''/img/a.png''])]"
  by (simp add: example_parseURL_def startsWith_def substring_def pathPrefix_def
        deleteStoredImage_def removeStored_def deleteImage_def loadImages_def handleDeleteProof_def
        hex_value_def slice_def PROOF_IMAGE_BUCKET_def truthy_def
        example_image_def example_proof_def example_delete_answers_def
        example_images_state_def example_proofs_state_def)

end
